theory Spec2Isabelle
  imports Complex_Main
begin

section \<open>trimesh/path/traversal.py: data model\<close>

text \<open>
  The module works on three kinds of data: entities (curve primitives holding an ordered
  list of vertex indices), a vertex graph whose edges are labelled with entity indices,
  and polylines, which are \<open>(n, d)\<close> arrays of floats.

  A row of an \<open>(n, d)\<close> array is a vector of \<open>\<real>\<^sup>d\<close>. The embedding keeps the dimension
  abstract: a point is an element of an arbitrary real normed vector space \<open>'a\<close>, with
  \<open>np.linalg.norm(_, axis=1)\<close> read as \<open>norm\<close>. Floating-point numbers are read as real
  numbers, so every statement below is about the arithmetic the code writes down, carried
  out exactly. Plane points are written \<open>point2 x y\<close>; the plane is the type \<open>complex\<close>,
  whose norm is the Euclidean one.
\<close>

datatype error =
    ValueError string
  | IndexError
  | TypeError
  | AssertionError
  | OverflowError
  | ZeroDivisionError

text \<open>
  \<open>ValueError\<close> carries the message of the exception, whether the module raises it or
  numpy does.
\<close>

definition ebind :: "error + 'a \<Rightarrow> ('a \<Rightarrow> error + 'b) \<Rightarrow> error + 'b" where
  "ebind r f = (case r of Inl e \<Rightarrow> Inl e | Inr x \<Rightarrow> f x)"

fun emap :: "('a \<Rightarrow> error + 'b) \<Rightarrow> 'a list \<Rightarrow> error + 'b list" where
  "emap f [] = Inr []"
| "emap f (x # xs) = ebind (f x) (\<lambda>y. ebind (emap f xs) (\<lambda>ys. Inr (y # ys)))"

text \<open>
  The tolerances come from \<open>..constants.tol_path\<close>, which is not part of the module;
  they are a parameter of everything that reads them.
\<close>

record tol_path =
  tol_zero :: real
  tol_merge :: real

definition point2 :: "real \<Rightarrow> real \<Rightarrow> complex" where
  "point2 x y = Complex x y"

subsection \<open>Python and numpy primitives\<close>

text \<open>\<open>xs[i]\<close> for a Python integer \<open>i\<close>: a negative index counts from the end.\<close>

definition py_index :: "'a list \<Rightarrow> int \<Rightarrow> error + 'a" where
  "py_index xs i =
     (if 0 \<le> i \<and> i < int (length xs) then Inr (xs ! nat i)
      else if i < 0 \<and> - int (length xs) \<le> i then Inr (xs ! nat (int (length xs) + i))
      else Inl IndexError)"

text \<open>\<open>xs[[0, -1]]\<close>: the first and the last row.\<close>

definition first_last :: "'a list \<Rightarrow> error + ('a \<times> 'a)" where
  "first_last xs = (if xs = [] then Inl IndexError else Inr (hd xs, last xs))"

text \<open>\<open>np.diff(points, axis=0)\<close>: each row minus the one before it.\<close>

definition np_diff :: "'a::real_normed_vector list \<Rightarrow> 'a list" where
  "np_diff ps = map (\<lambda>(p, q). q - p) (zip ps (tl ps))"

fun cumsum_from :: "real \<Rightarrow> real list \<Rightarrow> real list" where
  "cumsum_from acc [] = []"
| "cumsum_from acc (x # xs) = (acc + x) # cumsum_from (acc + x) xs"

definition np_cumsum :: "real list \<Rightarrow> real list" where
  "np_cumsum xs = cumsum_from 0 xs"

text \<open>
  \<open>np.searchsorted(a, v)\<close> (side \<open>left\<close>) on a sorted array: the number of entries
  strictly below \<open>v\<close>, which is the leftmost insertion index.
\<close>

definition searchsorted :: "real list \<Rightarrow> real \<Rightarrow> nat" where
  "searchsorted a v = length (takeWhile (\<lambda>c. c < v) a)"

text \<open>\<open>np.clip(x, lo, hi)\<close> is \<open>minimum(hi, maximum(x, lo))\<close>.\<close>

definition np_clip :: "int \<Rightarrow> int \<Rightarrow> int \<Rightarrow> int" where
  "np_clip x lo hi = min hi (max x lo)"

text \<open>\<open>"%s" % num\<close> for a Python integer: its decimal digits, after a minus sign if negative.\<close>

function py_str_nat :: "nat \<Rightarrow> string" where
  "py_str_nat n =
     (if n < 10 then [''0123456789'' ! n]
      else py_str_nat (n div 10) @ [''0123456789'' ! (n mod 10)])"
  by pat_completeness auto
termination
  by (relation "measure id") auto

declare py_str_nat.simps [simp del]

definition py_str_int :: "int \<Rightarrow> string" where
  "py_str_int i = (if i < 0 then CHR ''-'' # py_str_nat (nat (- i)) else py_str_nat (nat i))"

text \<open>
  \<open>np.linspace(start, stop, num)\<close>: \<open>num\<close> evenly spaced values, both ends included;
  numpy raises a \<open>ValueError\<close> on a negative \<open>num\<close>.
\<close>

definition np_linspace :: "real \<Rightarrow> real \<Rightarrow> int \<Rightarrow> error + real list" where
  "np_linspace start stop num =
     (if num < 0 then
        Inl (ValueError (''Number of samples, '' @ py_str_int num @ '', must be non-negative.''))
      else if num = 1 then Inr [start]
      else Inr (map (\<lambda>i. start + real i * ((stop - start) / real (nat num - 1)))
                  [0..<nat num]))"

text \<open>
  \<open>np.arange(start, stop, step)\<close>: the \<open>ceil((stop - start) / step)\<close> values
  \<open>start + i * step\<close>; no value when that count is not positive. On a zero step numpy
  raises an exception whose class depends on its version and on the argument types (a
  \<open>ValueError\<close>, an \<open>OverflowError\<close> or a \<open>ZeroDivisionError\<close>); that exception is the
  parameter \<open>zero_step_error\<close>, here and in everything that calls \<open>np.arange\<close>.
\<close>

definition np_arange :: "error \<Rightarrow> real \<Rightarrow> real \<Rightarrow> real \<Rightarrow> error + real list" where
  "np_arange zero_step_error start stop step =
     (if step = 0 then Inl zero_step_error
      else Inr (map (\<lambda>i. start + real i * step)
                  [0..<nat \<lceil>(stop - start) / step\<rceil>]))"

section \<open>PathSample\<close>

record 'a path_sample =
  ps_points :: "'a list"
  ps_vectors :: "'a list"
  ps_norms :: "real list"
  ps_unit_vec :: "'a list"
  ps_length :: real
  ps_cum_norm :: "real list"

text \<open>
  \<open>PathSample.__init__\<close>. The unit vectors start as a copy of the segment vectors, and
  only the rows whose norm exceeds \<open>tol.zero\<close> are divided by their norm.
\<close>

definition PathSample_init :: "tol_path \<Rightarrow> 'a::real_normed_vector list \<Rightarrow> 'a path_sample" where
  "PathSample_init tol points =
     (let vectors = np_diff points;
          norms = map norm vectors
      in \<lparr> ps_points = points,
           ps_vectors = vectors,
           ps_norms = norms,
           ps_unit_vec = map (\<lambda>v. if norm v > tol_zero tol then v /\<^sub>R norm v else v) vectors,
           ps_length = sum_list norms,
           ps_cum_norm = np_cumsum norms \<rparr>)"

text \<open>\<open>PathSample.sample\<close> for one distance of the batch.\<close>

definition sample1 :: "'a::real_normed_vector path_sample \<Rightarrow> real \<Rightarrow> error + 'a" where
  "sample1 s d =
     (let position = np_clip (int (searchsorted (ps_cum_norm s) d)) 0
                       (int (length (ps_unit_vec s)) - 1)
      in ebind (py_index (0 # ps_cum_norm s) position) (\<lambda>offset.
         ebind (py_index (ps_unit_vec s) position) (\<lambda>direction.
         ebind (py_index (ps_points s) position) (\<lambda>origin.
           Inr (origin + (d - offset) *\<^sub>R direction)))))"

definition sample :: "'a::real_normed_vector path_sample \<Rightarrow> real list \<Rightarrow> error + 'a list" where
  "sample s distances = emap (sample1 s) distances"

text \<open>The arc length of a polyline: \<open>np.linalg.norm(np.diff(p, axis=0), axis=1).sum()\<close>.\<close>

definition polyline_length :: "'a::real_normed_vector list \<Rightarrow> real" where
  "polyline_length ps = sum_list (map norm (np_diff ps))"

text \<open>
  Modelled from the spec: \<open>unitize\<close> of \<open>..util\<close>, the unit-vector normalizer, which
  divides a vector by its norm. On the zero vector the division yields NaN in every
  coordinate; the only caller, \<open>truncate\<close>, then fails its assertion, since a comparison
  with NaN is false. That case is the \<open>None\<close> below.
\<close>

definition unitize :: "'a::real_normed_vector \<Rightarrow> 'a option" where
  "unitize v = (if norm v = 0 then None else Some (v /\<^sub>R norm v))"

text \<open>The assertion that closes \<open>PathSample.truncate\<close>.\<close>

definition truncate_check :: "tol_path \<Rightarrow> 'a::real_normed_vector list \<Rightarrow> real \<Rightarrow> bool" where
  "truncate_check tol truncated distance \<longleftrightarrow>
     polyline_length truncated - distance < tol_merge tol"

definition PathSample_truncate :: "tol_path \<Rightarrow> 'a::real_normed_vector path_sample \<Rightarrow> real \<Rightarrow> error + 'a list" where
  "PathSample_truncate tol s distance =
     (let position = searchsorted (ps_cum_norm s) distance
      in ebind (py_index (ps_cum_norm s) (int position - 1)) (\<lambda>c.
         let offset = distance - c
         in if offset < tol_merge tol then
              (let truncated = take (position + 1) (ps_points s)
               in if truncate_check tol truncated distance then Inr truncated
                  else Inl AssertionError)
            else
              ebind (py_index (ps_points s) (int position)) (\<lambda>p0.
              ebind (py_index (ps_points s) (int position + 1)) (\<lambda>p1.
                case unitize (p1 - p0) of
                  None \<Rightarrow> Inl AssertionError
                | Some u \<Rightarrow>
                    (let vector = offset *\<^sub>R u;
                         endpoint = p0 + vector;
                         truncated = take (position + 1) (ps_points s) @ [endpoint]
                     in if truncate_check tol truncated distance then Inr truncated
                        else Inl AssertionError)))))"

section \<open>resample_path\<close>

text \<open>
  The part of \<open>resample_path\<close> after \<open>count\<close> has been settled: the sample distances,
  the sampling and the two assertions on the ends.
\<close>

definition resample_samples ::
  "error \<Rightarrow> real \<Rightarrow> int option \<Rightarrow> real option \<Rightarrow> error + real list" where
  "resample_samples zero_step_error len count step =
     (case count of
        Some c \<Rightarrow> np_linspace 0 len c
      | None \<Rightarrow>
          (case step of Some st \<Rightarrow> np_arange zero_step_error 0 len st | None \<Rightarrow> Inr []))"

definition resample_tail ::
  "error \<Rightarrow> tol_path \<Rightarrow> 'a::real_normed_vector list \<Rightarrow> 'a path_sample \<Rightarrow> int option \<Rightarrow> real option
     \<Rightarrow> error + 'a list" where
  "resample_tail zero_step_error tol points sampler count step =
     ebind (resample_samples zero_step_error (ps_length sampler) count step) (\<lambda>samples.
     ebind (sample sampler samples) (\<lambda>resampled.
     ebind (first_last points) (\<lambda>pe.
     ebind (first_last resampled) (\<lambda>re.
       if \<not> norm (fst pe - fst re) < tol_merge tol then Inl AssertionError
       else if count \<noteq> None \<and> \<not> norm (snd pe - snd re) < tol_merge tol
         then Inl AssertionError
       else Inr resampled))))"

definition resample_path ::
  "error \<Rightarrow> tol_path \<Rightarrow> 'a::real_normed_vector list \<Rightarrow> int option \<Rightarrow> real option \<Rightarrow> bool
     \<Rightarrow> error + 'a list" where
  "resample_path zero_step_error tol points count step step_round =
     (if count \<noteq> None \<and> step \<noteq> None then
        Inl (ValueError ''Only step OR count can be specified'')
      else if count = None \<and> step = None then
        Inl (ValueError ''Either step or count must be specified'')
      else
        (let sampler = PathSample_init tol points
         in case step of
              Some st \<Rightarrow>
                if step_round then
                  (if st \<ge> ps_length sampler then
                     ebind (first_last points) (\<lambda>(a, b). Inr [a, b])
                   else if st = 0 then Inl OverflowError
                   else resample_tail zero_step_error tol points sampler
                          (Some \<lceil>ps_length sampler / st\<rceil>) step)
                else resample_tail zero_step_error tol points sampler count step
            | None \<Rightarrow> resample_tail zero_step_error tol points sampler count step))"

section \<open>Entities and the vertex graph\<close>

text \<open>
  Modelled from the spec: the entity class is not part of the module. An entity exposes
  \<open>closed\<close> (the field \<open>is_closed\<close>), \<open>nodes\<close> (one vertex-index pair per internal
  segment) and \<open>points\<close>, the ordered vertex indices, which the module reassigns;
  \<open>end_points\<close> is the pair of the first and the last of \<open>points\<close>, so that reversing
  \<open>points\<close> swaps it. The entities of a list are distinct objects.
\<close>

record entity =
  points :: "nat list"
  is_closed :: bool
  nodes :: "(nat \<times> nat) list"

definition end_points :: "entity \<Rightarrow> error + (nat \<times> nat)" where
  "end_points e = first_last (points e)"

text \<open>
  The networkx graph, as far as the module reads it: \<open>get_edge_data(u, v)\<close> with its
  \<open>entity_index\<close> label, \<open>None\<close> when there is no such edge. The graph is undirected, so
  an edge is stored under both orders of its ends, and a later label replaces an earlier one.
\<close>

type_synonym graph = "nat \<times> nat \<Rightarrow> nat option"

definition add_edge :: "nat \<Rightarrow> graph \<Rightarrow> nat \<times> nat \<Rightarrow> graph" where
  "add_edge index g uv = g(uv \<mapsto> index, (snd uv, fst uv) \<mapsto> index)"

fun vertex_graph_from :: "nat \<Rightarrow> entity list \<Rightarrow> graph \<times> nat list \<Rightarrow> graph \<times> nat list" where
  "vertex_graph_from index [] acc = acc"
| "vertex_graph_from index (e # es) (g, cl) =
     (if is_closed e then vertex_graph_from (Suc index) es (g, cl @ [index])
      else vertex_graph_from (Suc index) es (foldl (add_edge index) g (nodes e), cl))"

definition vertex_graph :: "entity list \<Rightarrow> graph \<times> nat list" where
  "vertex_graph entities = vertex_graph_from 0 entities (Map.empty, [])"

section \<open>vertex_to_entity_path\<close>

definition edge_direction :: "nat \<times> nat \<Rightarrow> nat \<times> nat \<Rightarrow> error + (int \<times> int)" where
  "edge_direction a b =
     (if fst a = fst b then Inr (- 1, 1)
      else if fst a = snd b then Inr (- 1, - 1)
      else if snd a = fst b then Inr (1, 1)
      else if snd a = snd b then Inr (1, - 1)
      else Inl (ValueError ''edges aren't connected!''))"

text \<open>\<open>xs[::d]\<close> for the two steps the module uses, \<open>1\<close> and \<open>-1\<close>.\<close>

definition slice_step :: "'a list \<Rightarrow> int \<Rightarrow> 'a list" where
  "slice_step xs d = (if d = - 1 then rev xs else xs)"

text \<open>
  Modelled from the spec: \<open>unique_ordered\<close> of \<open>..grouping\<close>, which removes duplicates
  and keeps the first occurrence of each value, in order.
\<close>

fun unique_ordered_from :: "'a list \<Rightarrow> 'a list \<Rightarrow> 'a list" where
  "unique_ordered_from seen [] = []"
| "unique_ordered_from seen (x # xs) =
     (if x \<in> set seen then unique_ordered_from seen xs
      else x # unique_ordered_from (x # seen) xs)"

definition unique_ordered :: "'a list \<Rightarrow> 'a list" where
  "unique_ordered xs = unique_ordered_from [] xs"

text \<open>
  \<open>vertices[np.append(vertex_path, vertex_path[0])]\<close>: the closed ring of coordinates.
\<close>

definition closed_ring :: "'p list \<Rightarrow> nat list \<Rightarrow> error + 'p list" where
  "closed_ring vertices vertex_path =
     (if vertex_path = [] then Inl IndexError
      else emap (\<lambda>v. py_index vertices (int v)) (vertex_path @ [hd vertex_path]))"

text \<open>
  Lines 94 to 99. The orientation test \<open>is_ccw\<close> of \<open>.util\<close> is a parameter;
  \<open>ccw_check * 2 - 1\<close> reads the boolean as 0 or 1.
\<close>

definition ccw_direction :: "('p list \<Rightarrow> bool) \<Rightarrow> nat list \<Rightarrow> 'p list option \<Rightarrow> error + int" where
  "ccw_direction is_ccw vertex_path vertices =
     (case vertices of
        None \<Rightarrow> Inr 1
      | Some vs \<Rightarrow>
          ebind (closed_ring vs vertex_path) (\<lambda>ring.
            Inr ((if is_ccw ring then 1 else 0) * 2 - 1)))"

text \<open>
  Lines 103 to 108: the entity of every edge of the vertex path, the edge from the last
  vertex back to the first included; the loop runs \<open>len(vertex_path) + 1\<close> times.
  \<open>np.mod\<close> by zero yields zero, and indexing the empty path then fails.
\<close>

definition edge_entities :: "graph \<Rightarrow> nat list \<Rightarrow> error + nat list" where
  "edge_entities g vertex_path =
     (let n = length vertex_path
      in if n = 0 then Inl IndexError
         else emap (\<lambda>i. case g (vertex_path ! (i mod n), vertex_path ! ((1 + i) mod n)) of
                          None \<Rightarrow> Inl TypeError
                        | Some entity_index \<Rightarrow> Inr entity_index)
                [0..<n + 1])"

text \<open>\<open>zip(round_trip[:-1], round_trip[1:])\<close> for \<open>round_trip = entity_path + [entity_path[0]]\<close>.\<close>

definition round_trip :: "nat list \<Rightarrow> (nat \<times> nat) list" where
  "round_trip entity_path = zip entity_path (tl entity_path @ [hd entity_path])"

text \<open>
  One turn of the loop of lines 116 to 120. The second assignment reads the entity list
  as the first one left it, which matters when \<open>a = b\<close>.
\<close>

definition reverse_points :: "entity \<Rightarrow> int \<Rightarrow> entity" where
  "reverse_points e d = e\<lparr>points := slice_step (points e) d\<rparr>"

definition align_pair :: "nat \<times> nat \<Rightarrow> entity list \<Rightarrow> error + entity list" where
  "align_pair ab entities =
     ebind (py_index entities (int (fst ab))) (\<lambda>ea.
     ebind (end_points ea) (\<lambda>a_ends.
     ebind (py_index entities (int (snd ab))) (\<lambda>eb.
     ebind (end_points eb) (\<lambda>b_ends.
     ebind (edge_direction a_ends b_ends) (\<lambda>(da, db).
       let entities1 = entities[fst ab := reverse_points (entities ! fst ab) da];
           entities2 = entities1[snd ab := reverse_points (entities1 ! snd ab) db]
       in Inr entities2)))))"

fun align_entities :: "(nat \<times> nat) list \<Rightarrow> entity list \<Rightarrow> error + entity list" where
  "align_entities [] entities = Inr entities"
| "align_entities (ab # rest) entities =
     ebind (align_pair ab entities) (align_entities rest)"

text \<open>Lines 94 to 110: the entity path, before any entity is touched.\<close>

definition entity_path_of ::
  "('p list \<Rightarrow> bool) \<Rightarrow> nat list \<Rightarrow> graph \<Rightarrow> 'p list option \<Rightarrow> error + nat list" where
  "entity_path_of is_ccw vertex_path g vertices =
     ebind (ccw_direction is_ccw vertex_path vertices) (\<lambda>direction.
     ebind (edge_entities g vertex_path) (\<lambda>entity_path.
       Inr (slice_step (unique_ordered entity_path) direction)))"

text \<open>
  The whole function returns the entity path; the entities it has reordered are returned
  with it, since the caller sees them changed.
\<close>

definition vertex_to_entity_path ::
  "('p list \<Rightarrow> bool) \<Rightarrow> nat list \<Rightarrow> graph \<Rightarrow> entity list \<Rightarrow> 'p list option
     \<Rightarrow> error + (nat list \<times> entity list)" where
  "vertex_to_entity_path is_ccw vertex_path g entities vertices =
     ebind (entity_path_of is_ccw vertex_path g vertices) (\<lambda>entity_path.
     ebind (align_entities (round_trip entity_path) entities) (\<lambda>entities'.
       Inr (entity_path, entities')))"

section \<open>discretize_path\<close>

text \<open>
  The entity's \<open>discrete(vertices, scale=scale)\<close> and \<open>is_ccw\<close> are parameters, and so is
  \<open>dimension\<close>, the \<open>vertices.shape[1]\<close> of the vertex array.
\<close>

definition discretize_path ::
  "('p list \<Rightarrow> bool) \<Rightarrow> ('e \<Rightarrow> 'v \<Rightarrow> real \<Rightarrow> 'p list) \<Rightarrow> nat \<Rightarrow> 'e list \<Rightarrow> 'v \<Rightarrow> nat list \<Rightarrow> real
     \<Rightarrow> error + 'p list" where
  "discretize_path is_ccw discrete dimension entities vertices path scale =
     (let path_len = length path
      in if path_len = 0 then Inl (ValueError ''Cannot discretize empty path!'')
         else
           ebind
             (if path_len = 1 then
                ebind (py_index entities (int (path ! 0))) (\<lambda>e.
                  Inr (discrete e vertices scale))
              else
                ebind
                  (emap (\<lambda>(i, entity_id).
                       ebind (py_index entities (int entity_id)) (\<lambda>e.
                         let current = discrete e vertices scale
                         in if i \<ge> path_len - 1 then Inr current
                            else Inr (butlast current)))
                     (enumerate 0 path))
                  (\<lambda>curves. Inr (concat curves)))
             (\<lambda>discrete_points.
                if dimension = 2 \<and> \<not> is_ccw discrete_points then Inr (rev discrete_points)
                else Inr discrete_points))"

section \<open>Notions used in the statements\<close>

text \<open>The two end vertices of an entity, as a set.\<close>

definition ends_of :: "entity \<Rightarrow> nat set" where
  "ends_of e = {hd (points e), last (points e)}"

text \<open>
  Entity number \<open>a\<close> exists, has points, and runs from vertex \<open>u\<close> to vertex \<open>v\<close>;
  or joins \<open>u\<close> and \<open>v\<close> in one of the two directions.
\<close>

definition oriented :: "entity list \<Rightarrow> nat \<Rightarrow> nat \<Rightarrow> nat \<Rightarrow> bool" where
  "oriented es a u v \<longleftrightarrow>
     a < length es \<and> points (es ! a) \<noteq> [] \<and> hd (points (es ! a)) = u \<and> last (points (es ! a)) = v"

definition joins :: "entity list \<Rightarrow> nat \<Rightarrow> nat \<Rightarrow> nat \<Rightarrow> bool" where
  "joins es a u v \<longleftrightarrow> oriented es a u v \<or> oriented es a v u"

text \<open>
  Along a walk \<open>ring\<close> of vertices, entity \<open>i\<close> of \<open>path\<close> joins vertex \<open>i\<close> and vertex
  \<open>i + 1\<close> (\<open>joined\<close>), or runs from the one to the other (\<open>aligned\<close>).
\<close>

definition joined :: "entity list \<Rightarrow> nat list \<Rightarrow> nat list \<Rightarrow> bool" where
  "joined es path ring \<longleftrightarrow>
     length ring = Suc (length path) \<and>
     (\<forall>i<length path. joins es (path ! i) (ring ! i) (ring ! Suc i))"

definition aligned :: "entity list \<Rightarrow> nat list \<Rightarrow> nat list \<Rightarrow> bool" where
  "aligned es path ring \<longleftrightarrow>
     length ring = Suc (length path) \<and>
     (\<forall>i<length path. oriented es (path ! i) (ring ! i) (ring ! Suc i))"

text \<open>
  The entities of \<open>path\<close> form a simple cycle through the distinct vertices \<open>vs\<close>: entity
  \<open>i\<close> joins vertex \<open>i\<close> and the cyclically next vertex.
\<close>

definition simple_cycle :: "entity list \<Rightarrow> nat list \<Rightarrow> nat list \<Rightarrow> bool" where
  "simple_cycle es path vs \<longleftrightarrow>
     path \<noteq> [] \<and> distinct path \<and> length vs = length path \<and> distinct vs \<and>
     (\<forall>i<length path. joins es (path ! i) (vs ! i) (vs ! (Suc i mod length path)))"

text \<open>
  Every entity of a list of index pairs exists and has points, so that the loop of
  lines 116 to 120 can read its end points.
\<close>

definition readable :: "entity list \<Rightarrow> (nat \<times> nat) list \<Rightarrow> bool" where
  "readable es pairs \<longleftrightarrow>
     (\<forall>ab\<in>set pairs. fst ab < length es \<and> snd ab < length es \<and>
        points (es ! fst ab) \<noteq> [] \<and> points (es ! snd ab) \<noteq> [])"

text \<open>
  Modelled from the spec: \<open>is_ccw\<close> of \<open>.util\<close>, the counter-clockwise test on a ring of
  plane points by the sign of its signed area. It serves the concrete examples only;
  every general statement takes the test as a parameter.
\<close>

definition ring_area :: "complex list \<Rightarrow> real" where
  "ring_area ps = sum_list (map (\<lambda>(p, q). (Re q - Re p) * (Im p + Im q)) (zip ps (tl ps))) / 2"

definition is_ccw_area :: "complex list \<Rightarrow> bool" where
  "is_ccw_area ps \<longleftrightarrow> ring_area ps < 0"

text \<open>The last step of \<open>discretize_path\<close>: plane curves are made counter-clockwise.\<close>

definition make_ccw :: "('p list \<Rightarrow> bool) \<Rightarrow> nat \<Rightarrow> 'p list \<Rightarrow> 'p list" where
  "make_ccw is_ccw dimension ps = (if dimension = 2 \<and> \<not> is_ccw ps then rev ps else ps)"

subsection \<open>Example drawings\<close>

text \<open>
  An open polyline entity through the given vertices; its nodes are the consecutive
  vertex pairs.
\<close>

definition open_line :: "nat list \<Rightarrow> entity" where
  "open_line vs = \<lparr>points = vs, is_closed = False, nodes = zip vs (tl vs)\<rparr>"

text \<open>A triangle of three lines on the vertices 0, 1, 2, the second and third drawn backwards.\<close>

definition triangle :: "entity list" where
  "triangle = [open_line [0, 1], open_line [2, 1], open_line [0, 2]]"

text \<open>
  The square 0, 1, 2, 3 where the first entity makes a detour: it runs from 0 over 1, 5
  and 2 to 3, so that it covers two separate edges of the vertex cycle 0, 1, 2, 3.
\<close>

definition detour :: "entity list" where
  "detour = [open_line [0, 1, 5, 2, 3], open_line [1, 2], open_line [3, 0]]"

text \<open>
  Two open polylines that cross at vertex 3 and meet at vertex 1; the vertex graph has
  the cycle 3, 4, 1.
\<close>

definition crossing :: "entity list" where
  "crossing = [open_line [0, 3, 4, 1], open_line [1, 3, 2]]"

section \<open>Basic facts\<close>

lemma ebind_simps [simp]: "ebind (Inl e) f = Inl e" "ebind (Inr x) f = f x"
  by (simp_all add: ebind_def)

lemma ebind_eq_Inl: "ebind r f = Inl e \<longleftrightarrow> r = Inl e \<or> (\<exists>x. r = Inr x \<and> f x = Inl e)"
  by (cases r) simp_all

lemma ebind_eq_Inr: "ebind r f = Inr y \<longleftrightarrow> (\<exists>x. r = Inr x \<and> f x = Inr y)"
  by (cases r) simp_all

section \<open>The resampler's argument check\<close>












section \<open>PathSample: construction\<close>

lemma length_np_diff [simp]: "length (np_diff ps) = length ps - 1"
  by (simp add: np_diff_def)

lemma nth_np_diff: "Suc i < length ps \<Longrightarrow> np_diff ps ! i = ps ! Suc i - ps ! i"
  by (simp add: np_diff_def nth_tl)

lemma np_diff_Cons2 [simp]: "np_diff (p # q # ps) = (q - p) # np_diff (q # ps)"
  by (simp add: np_diff_def)

lemma np_diff_single [simp]: "np_diff [p] = []" "np_diff [] = []"
  by (simp_all add: np_diff_def)

lemma length_cumsum_from [simp]: "length (cumsum_from a xs) = length xs"
  by (induction xs arbitrary: a) simp_all

lemma nth_cumsum_from:
  "i < length xs \<Longrightarrow> cumsum_from a xs ! i = a + sum_list (take (Suc i) xs)"
proof (induction xs arbitrary: a i)
  case Nil
  then show ?case by simp
next
  case (Cons x xs)
  then show ?case by (cases i) (simp_all add: add.assoc)
qed

lemma cumsum_from_lower:
  "\<forall>x\<in>set xs. 0 \<le> x \<Longrightarrow> y \<in> set (cumsum_from a xs) \<Longrightarrow> a \<le> y"
proof (induction xs arbitrary: a)
  case Nil
  then show ?case by simp
next
  case (Cons x xs)
  from Cons.prems have "0 \<le> x" by simp
  with Cons show ?case by fastforce
qed

lemma sorted_cumsum_from: "\<forall>x\<in>set xs. 0 \<le> x \<Longrightarrow> sorted (cumsum_from a xs)"
proof (induction xs arbitrary: a)
  case Nil
  then show ?case by simp
next
  case (Cons x xs)
  then show ?case using cumsum_from_lower [of xs _ "a + x"] by auto
qed

lemma last_cumsum_from: "xs \<noteq> [] \<Longrightarrow> last (cumsum_from a xs) = a + sum_list xs"
proof -
  assume "xs \<noteq> []"
  then have ne: "cumsum_from a xs \<noteq> []"
    by (cases xs) simp_all
  from \<open>xs \<noteq> []\<close> have "length xs - 1 < length xs"
    by (cases xs) simp_all
  then have "cumsum_from a xs ! (length xs - 1) = a + sum_list (take (Suc (length xs - 1)) xs)"
    by (rule nth_cumsum_from)
  with ne \<open>xs \<noteq> []\<close> show ?thesis
    by (simp add: last_conv_nth)
qed

lemma ps_init_simps [simp]:
  "ps_points (PathSample_init tol pts) = pts"
  "ps_vectors (PathSample_init tol pts) = np_diff pts"
  "ps_norms (PathSample_init tol pts) = map norm (np_diff pts)"
  "ps_unit_vec (PathSample_init tol pts)
     = map (\<lambda>v. if norm v > tol_zero tol then v /\<^sub>R norm v else v) (np_diff pts)"
  "ps_length (PathSample_init tol pts) = polyline_length pts"
  "ps_cum_norm (PathSample_init tol pts) = np_cumsum (map norm (np_diff pts))"
  by (simp_all add: PathSample_init_def Let_def polyline_length_def)

lemma sorted_cum_norm: "sorted (np_cumsum (map norm vs))"
  unfolding np_cumsum_def by (rule sorted_cumsum_from) auto

lemma last_cum_norm:
  "2 \<le> length pts \<Longrightarrow> last (np_cumsum (map norm (np_diff pts))) = polyline_length pts"
  unfolding np_cumsum_def polyline_length_def
  by (subst last_cumsum_from) (auto simp flip: length_0_conv)

subsection \<open>Plane points\<close>

lemma cmod_point2_x [simp]: "cmod (point2 x 0) = \<bar>x\<bar>"
  by (simp add: point2_def cmod_def)

lemma point2_diff [simp]: "point2 a b - point2 c d = point2 (a - c) (b - d)"
  by (simp add: point2_def complex_eq_iff)

lemma point2_add [simp]: "point2 a b + point2 c d = point2 (a + c) (b + d)"
  by (simp add: point2_def complex_eq_iff)

lemma point2_scaleR [simp]: "r *\<^sub>R point2 a b = point2 (r * a) (r * b)"
  by (simp add: point2_def complex_eq_iff)

lemma point2_eq_iff [simp]: "point2 a b = point2 c d \<longleftrightarrow> a = c \<and> b = d"
  by (simp add: point2_def)

lemma point2_eq_0_iff [simp]: "point2 a b = 0 \<longleftrightarrow> a = 0 \<and> b = 0"
  by (simp add: point2_def complex_eq_iff)

subsection \<open>Unit directions and cumulative lengths\<close>

text \<open>
  C5, as the code has it. For every segment the unit direction is the segment vector
  divided by its length when that length exceeds the zero tolerance \<open>tol.zero\<close>, and
  the segment vector itself, unchanged, otherwise. The cumulative-length array is
  non-decreasing, and for a polyline of at least two points its last entry is the total
  length.
\<close>

theorem PathSample_init_unit_vec_cum_norm:
  "(\<forall>i<length (ps_vectors (PathSample_init tol pts)).
       ps_vectors (PathSample_init tol pts) ! i = pts ! Suc i - pts ! i \<and>
       ps_unit_vec (PathSample_init tol pts) ! i =
         (if tol_zero tol < ps_norms (PathSample_init tol pts) ! i
          then ps_vectors (PathSample_init tol pts) ! i /\<^sub>R ps_norms (PathSample_init tol pts) ! i
          else ps_vectors (PathSample_init tol pts) ! i)) \<and>
   sorted (ps_cum_norm (PathSample_init tol pts)) \<and>
   (2 \<le> length pts \<longrightarrow>
      last (ps_cum_norm (PathSample_init tol pts)) = ps_length (PathSample_init tol pts))"
  by (auto simp: sorted_cum_norm last_cum_norm nth_np_diff)

theorem PathSample_init_unit_vec_cum_norm_witness:
  "ps_unit_vec (PathSample_init \<lparr>tol_zero = 1 / 10 ^ 12, tol_merge = 1 / 10 ^ 5\<rparr>
      [point2 0 0, point2 (1 / 10 ^ 13) 0, point2 3 0]) ! 0 = point2 (1 / 10 ^ 13) 0 \<and>
   ps_unit_vec (PathSample_init \<lparr>tol_zero = 1 / 10 ^ 12, tol_merge = 1 / 10 ^ 5\<rparr>
      [point2 0 0, point2 (1 / 10 ^ 13) 0, point2 3 0]) ! 1 = point2 1 0 \<and>
   last (ps_cum_norm (PathSample_init \<lparr>tol_zero = 1 / 10 ^ 12, tol_merge = 1 / 10 ^ 5\<rparr>
      [point2 0 0, point2 (1 / 10 ^ 13) 0, point2 3 0])) = 3"
  using PathSample_init_unit_vec_cum_norm [of "\<lparr>tol_zero = 1 / 10 ^ 12, tol_merge = 1 / 10 ^ 5\<rparr>"
      "[point2 0 0, point2 (1 / 10 ^ 13) 0, point2 3 0]"]
  by (simp add: polyline_length_def)

text \<open>
  C5, as the spec states it, fails: with \<open>tol.zero = 1e-12\<close> and \<open>tol.merge = 1e-5\<close>, a
  segment of length \<open>1e-6\<close> is shorter than the merge tolerance, and its unit direction
  is the unit vector, not zero.
\<close>

theorem PathSample_unit_vec_not_zero_below_merge:
  "ps_norms (PathSample_init \<lparr>tol_zero = 1 / 10 ^ 12, tol_merge = 1 / 10 ^ 5\<rparr>
      [point2 0 0, point2 (1 / 10 ^ 6) 0]) = [1 / 10 ^ 6] \<and>
   (1 / 10 ^ 6 :: real) < tol_merge \<lparr>tol_zero = 1 / 10 ^ 12, tol_merge = 1 / 10 ^ 5\<rparr> \<and>
   ps_unit_vec (PathSample_init \<lparr>tol_zero = 1 / 10 ^ 12, tol_merge = 1 / 10 ^ 5\<rparr>
      [point2 0 0, point2 (1 / 10 ^ 6) 0]) = [point2 1 0] \<and>
   point2 1 0 \<noteq> 0"
  by simp

section \<open>PathSample: sample\<close>

lemma searchsorted_nonpos: "d \<le> 0 \<Longrightarrow> searchsorted (np_cumsum (map norm vs)) d = 0"
  by (cases vs) (simp_all add: searchsorted_def np_cumsum_def not_less order_trans [OF _ norm_ge_zero])

lemma polyline_length_pos_length: "0 < polyline_length pts \<Longrightarrow> 2 \<le> length pts"
  by (cases pts; cases "tl pts") (auto simp: polyline_length_def)

lemma length_np_cumsum [simp]: "length (np_cumsum xs) = length xs"
  by (simp add: np_cumsum_def)

lemma py_index_nat: "i < length xs \<Longrightarrow> py_index xs (int i) = Inr (xs ! i)"
  by (simp add: py_index_def)

lemma np_clip_nat: "1 \<le> n \<Longrightarrow> np_clip (int s) 0 (int n - 1) = int (min s (n - 1))"
  by (simp add: np_clip_def min_def max_def) linarith

lemma sample1_init:
  assumes "2 \<le> length pts"
  shows "sample1 (PathSample_init tol pts) d =
    (let k = min (searchsorted (ps_cum_norm (PathSample_init tol pts)) d) (length pts - 2)
     in Inr (pts ! k + (d - (0 # ps_cum_norm (PathSample_init tol pts)) ! k)
               *\<^sub>R ps_unit_vec (PathSample_init tol pts) ! k))"
proof -
  define s where "s = PathSample_init tol pts"
  define k where "k = min (searchsorted (ps_cum_norm s) d) (length pts - 2)"
  have n: "length (ps_unit_vec s) = length pts - 1" "length (ps_cum_norm s) = length pts - 1"
    "ps_points s = pts"
    by (simp_all add: s_def)
  from assms have k: "k < length pts - 1" "k < length pts" "k < Suc (length pts - 1)"
    by (simp_all add: k_def)
  from assms have "np_clip (int (searchsorted (ps_cum_norm s) d)) 0 (int (length (ps_unit_vec s)) - 1)
      = int (min (searchsorted (ps_cum_norm s) d) (length pts - 1 - 1))"
    unfolding n by (intro np_clip_nat) simp
  also have "\<dots> = int k"
    by (simp add: k_def)
  finally have "sample1 s d = Inr (pts ! k + (d - (0 # ps_cum_norm s) ! k) *\<^sub>R ps_unit_vec s ! k)"
    unfolding sample1_def Let_def using k n
    by (simp add: py_index_nat del: nth_Cons_Suc)
  then show ?thesis
    by (simp add: s_def k_def Let_def)
qed

lemma sample1_start:
  assumes "2 \<le> length pts"
  shows "sample1 (PathSample_init tol pts) 0 = Inr (hd pts)"
proof -
  have "searchsorted (ps_cum_norm (PathSample_init tol pts)) 0 = 0"
    by (simp add: searchsorted_nonpos)
  moreover from assms have "pts ! 0 = hd pts"
    by (cases pts) simp_all
  ultimately show ?thesis
    by (simp add: sample1_init [OF assms])
qed

subsection \<open>A step that reaches past the end\<close>

text \<open>
  C10. For a polyline of positive total length \<open>L\<close> and a step of at least \<open>L\<close>,
  \<open>resample_path\<close> with that step and \<open>step_round\<close> off returns exactly one point, the
  first input point: \<open>np.arange(0, L, step)\<close> is the single distance 0. The merge
  tolerance is taken positive, as the first assertion needs it to be.
\<close>

theorem resample_path_step_beyond_length:
  assumes "0 < tol_merge tol" and "0 < polyline_length pts" and "polyline_length pts \<le> step"
  shows "resample_path zero_step_error tol pts None (Some step) False = Inr [hd pts]"
proof -
  from assms(2) have len: "2 \<le> length pts"
    by (rule polyline_length_pos_length)
  then have ne: "pts \<noteq> []" by auto
  from assms have "0 < polyline_length pts / step" "polyline_length pts / step \<le> 1"
    by simp_all
  then have "\<lceil>polyline_length pts / step\<rceil> = 1"
    by (intro ceiling_unique) simp_all
  moreover from assms have "step \<noteq> 0" by simp
  ultimately have "np_arange zero_step_error 0 (polyline_length pts) step = Inr [0]"
    by (simp add: np_arange_def)
  then have "resample_tail zero_step_error tol pts (PathSample_init tol pts) None (Some step)
      = Inr [hd pts]"
    using assms(1) ne
    by (simp add: resample_tail_def resample_samples_def sample_def sample1_start [OF len]
        first_last_def)
  then show ?thesis
    by (simp add: resample_path_def)
qed

theorem resample_path_step_beyond_length_witness:
  "resample_path OverflowError \<lparr>tol_zero = 1 / 10 ^ 12, tol_merge = 1 / 10 ^ 5\<rparr>
     [point2 0 0, point2 10 0] None (Some 10) False = Inr [point2 0 0]"
  using resample_path_step_beyond_length [where zero_step_error = OverflowError
      and tol = "\<lparr>tol_zero = 1 / 10 ^ 12, tol_merge = 1 / 10 ^ 5\<rparr>"
      and pts = "[point2 0 0, point2 10 0]" and step = 10]
  by (simp add: polyline_length_def)

section \<open>PathSample: truncate\<close>

lemma truncate_Inr_check:
  "PathSample_truncate tol s d = Inr t \<Longrightarrow> truncate_check tol t d"
  by (auto simp: PathSample_truncate_def Let_def ebind_eq_Inr split: if_splits option.splits)

lemma truncate_first_segment:
  assumes "0 < tol_merge tol" and "0 < m" and "m \<le> norm (q - p)"
  shows "PathSample_truncate tol (PathSample_init tol [p, q]) m = Inr [p]"
  using assms
  by (simp add: PathSample_truncate_def searchsorted_def np_cumsum_def py_index_def truncate_check_def
      polyline_length_def)

text \<open>
  C9. The assertion of \<open>truncate\<close> bounds the length from above only. Whenever
  \<open>truncate\<close> returns, the returned polyline is less than the merge tolerance longer
  than the requested distance. A polyline that is no longer than the requested distance
  passes the assertion whatever the shortfall. And the shortfall does occur: on a single
  segment from \<open>p\<close> to \<open>q\<close>, every distance \<open>m\<close> inside the segment returns the one
  point \<open>p\<close>, which is \<open>m\<close> too short.
\<close>

theorem truncate_check_one_sided:
  "(PathSample_truncate tol s d = Inr t \<longrightarrow> polyline_length t - d < tol_merge tol) \<and>
   (0 < tol_merge tol \<and> polyline_length t' \<le> d' \<longrightarrow> truncate_check tol t' d') \<and>
   (0 < tol_merge tol \<and> 0 < m \<and> m \<le> norm (q - p) \<longrightarrow>
      PathSample_truncate tol (PathSample_init tol [p, q]) m = Inr [p] \<and>
      m - polyline_length [p] = m)"
  using truncate_Inr_check [of tol s d t] truncate_first_segment [of tol m q p]
  by (auto simp: truncate_check_def polyline_length_def)

theorem truncate_check_one_sided_witness:
  "PathSample_truncate \<lparr>tol_zero = 1 / 10 ^ 12, tol_merge = 1 / 10 ^ 5\<rparr>
     (PathSample_init \<lparr>tol_zero = 1 / 10 ^ 12, tol_merge = 1 / 10 ^ 5\<rparr> [point2 0 0, point2 10 0]) 7
     = Inr [point2 0 0] \<and>
   polyline_length [point2 0 0] - 7 < tol_merge \<lparr>tol_zero = 1 / 10 ^ 12, tol_merge = 1 / 10 ^ 5\<rparr> \<and>
   truncate_check \<lparr>tol_zero = 1 / 10 ^ 12, tol_merge = 1 / 10 ^ 5\<rparr> [point2 0 0] 7"
  using truncate_check_one_sided [of "\<lparr>tol_zero = 1 / 10 ^ 12, tol_merge = 1 / 10 ^ 5\<rparr>"
      "PathSample_init \<lparr>tol_zero = 1 / 10 ^ 12, tol_merge = 1 / 10 ^ 5\<rparr> [point2 0 0, point2 10 0]"
      7 "[point2 0 0]" "[point2 0 0]" 7 7 "point2 10 0" "point2 0 0"]
  by (simp add: polyline_length_def)

text \<open>
  C2 fails on the code. On the segment from \<open>(0, 0)\<close> to \<open>(10, 0)\<close> the distance 5 is
  found at position 0, \<open>self._cum_norm[position - 1]\<close> then reads the last entry, the
  offset is \<open>-5\<close>, and the result is the first point alone, of length 0, which is not
  within the merge tolerance of 5.
\<close>

theorem truncate_inside_first_segment:
  "PathSample_truncate \<lparr>tol_zero = 1 / 10 ^ 12, tol_merge = 1 / 10 ^ 5\<rparr>
     (PathSample_init \<lparr>tol_zero = 1 / 10 ^ 12, tol_merge = 1 / 10 ^ 5\<rparr> [point2 0 0, point2 10 0]) 5
     = Inr [point2 0 0] \<and>
   polyline_length [point2 0 0] = 0 \<and>
   \<not> \<bar>polyline_length [point2 0 0] - 5\<bar> < tol_merge \<lparr>tol_zero = 1 / 10 ^ 12, tol_merge = 1 / 10 ^ 5\<rparr>"
  by (simp add: PathSample_truncate_def searchsorted_def np_cumsum_def py_index_def truncate_check_def
      polyline_length_def)

section \<open>resample_path with a rounded step\<close>

lemma searchsorted_eqI:
  assumes "k \<le> length cs" and "\<And>j. j < k \<Longrightarrow> cs ! j < d"
    and "k < length cs \<Longrightarrow> \<not> cs ! k < d"
  shows "searchsorted cs d = k"
proof -
  have "takeWhile (\<lambda>c. c < d) cs = take k cs"
    using assms by (intro takeWhile_eq_take_P_nth) auto
  with assms(1) show ?thesis
    by (simp add: searchsorted_def)
qed

lemma emap_Inr:
  assumes "\<And>x. x \<in> set xs \<Longrightarrow> f x = Inr (g x)"
  shows "emap f xs = Inr (map g xs)"
  using assms by (induction xs) simp_all

lemma sum_list_butlast_last:
  fixes xs :: "real list"
  shows "xs \<noteq> [] \<Longrightarrow> sum_list xs = sum_list (butlast xs) + last xs"
  by (induction xs) auto

lemma sample1_end:
  assumes len: "2 \<le> length pts"
    and pos: "0 < norm (last (np_diff pts))"
    and tol: "tol_zero tol < norm (last (np_diff pts))"
  shows "sample1 (PathSample_init tol pts) (polyline_length pts) = Inr (last pts)"
proof -
  define ns where "ns = map norm (np_diff pts)"
  define n where "n = length pts - 1"
  define L where "L = polyline_length pts"
  from len have n: "1 \<le> n" "length ns = n" "length (np_diff pts) = n" "length pts = Suc n"
    by (simp_all add: n_def ns_def)
  then have ne1: "ns \<noteq> []" "pts \<noteq> []"
    by auto
  then have "np_diff pts \<noteq> []"
    by (auto simp: ns_def)
  note ne = ne1(1) this ne1(2)
  have L: "L = sum_list ns"
    by (simp add: L_def polyline_length_def ns_def)
  have last_ns: "last ns = norm (last (np_diff pts))"
    using ne by (simp add: ns_def last_map)
  have cum_nth: "np_cumsum ns ! j = sum_list (take (Suc j) ns)" if "j < n" for j
    using that n by (simp add: np_cumsum_def nth_cumsum_from)
  have srt: "sorted (np_cumsum ns)"
    unfolding ns_def by (rule sorted_cum_norm)
  have before: "sum_list (take (n - 1) ns) = L - last ns"
    using sum_list_butlast_last [OF ne(1)] n by (simp add: L butlast_conv_take)
  have less: "np_cumsum ns ! j < L" if "j < n - 1" for j
  proof -
    from that n have "np_cumsum ns ! j \<le> np_cumsum ns ! (n - 2)"
      by (intro sorted_nth_mono [OF srt]) simp_all
    also from that have "\<dots> = sum_list (take (n - 1) ns)"
      by (subst cum_nth) (simp_all add: Suc_diff_Suc numeral_2_eq_2)
    also have "\<dots> < L"
      using before pos last_ns by simp
    finally show ?thesis .
  qed
  have at_end: "np_cumsum ns ! (n - 1) = L"
    using n by (subst cum_nth) (simp_all add: L)
  have ss: "searchsorted (np_cumsum ns) L = n - 1"
    using n less at_end by (intro searchsorted_eqI) simp_all
  have offset: "(0 # np_cumsum ns) ! (n - 1) = L - last ns"
  proof (cases "n = 1")
    case True
    with before show ?thesis by simp
  next
    case False
    with n have "(0 # np_cumsum ns) ! (n - 1) = np_cumsum ns ! (n - 2)"
      by (simp add: nth_Cons' numeral_2_eq_2)
    also from False n have "\<dots> = sum_list (take (n - 1) ns)"
      by (subst cum_nth) (simp_all add: Suc_diff_Suc numeral_2_eq_2)
    finally show ?thesis using before by simp
  qed
  have v: "np_diff pts ! (n - 1) = last (np_diff pts)"
    using ne n by (simp add: last_conv_nth)
  have v': "last (np_diff pts) = last pts - pts ! (n - 1)"
    using n ne by (simp add: last_conv_nth nth_np_diff)
  have cum: "ps_cum_norm (PathSample_init tol pts) = np_cumsum ns"
    by (simp add: ns_def)
  have k: "min (searchsorted (np_cumsum ns) L) (length pts - 2) = n - 1"
    unfolding ss by (simp add: n_def)
  have "sample1 (PathSample_init tol pts) L
      = Inr (pts ! (n - 1) + (L - (0 # np_cumsum ns) ! (n - 1)) *\<^sub>R
          ps_unit_vec (PathSample_init tol pts) ! (n - 1))"
    by (simp only: sample1_init [OF len] Let_def cum k)
  also have "ps_unit_vec (PathSample_init tol pts) ! (n - 1)
      = last (np_diff pts) /\<^sub>R norm (last (np_diff pts))"
    using n tol v by simp
  also have "pts ! (n - 1) + (L - (0 # np_cumsum ns) ! (n - 1)) *\<^sub>R
      (last (np_diff pts) /\<^sub>R norm (last (np_diff pts))) = last pts"
    using pos offset v' by (simp add: last_ns)
  finally show ?thesis
    by (simp add: L_def)
qed

lemma upt_4: "[0..<4] = [0, 1, 2, 3]"
  by (simp add: upt_rec [of 0] upt_rec [of 1] upt_rec [of 2] upt_rec [of 3] eval_nat_numeral)

text \<open>
  C1, as the code has it. With \<open>step\<close> given, \<open>step_round\<close> on and \<open>0 < step < L\<close>,
  the function returns \<open>count = ceil(L / step)\<close> points, at least two; the point number
  \<open>i\<close> is the point of the path at arc length \<open>i * L / (count - 1)\<close>, so the samples are
  uniformly spaced along the path; the first one is the first input point and the last
  one is the last input point, exactly. The spacing \<open>L / (count - 1)\<close> is greater than
  the requested step, and at most twice the step. The exact end needs the last segment
  to be non-degenerate and longer than \<open>tol.zero\<close>, so that its unit direction is the
  normalised one; the merge tolerance is taken positive.
\<close>

theorem resample_path_step_round:
  assumes merge: "0 < tol_merge tol"
    and step: "0 < step" "step < polyline_length pts"
    and seg: "0 < norm (last (np_diff pts))" "tol_zero tol < norm (last (np_diff pts))"
  shows "\<exists>r. resample_path zero_step_error tol pts None (Some step) True = Inr r \<and>
    length r = nat \<lceil>polyline_length pts / step\<rceil> \<and> 2 \<le> length r \<and>
    (\<forall>i<length r. sample1 (PathSample_init tol pts)
         (real i * (polyline_length pts / real (length r - 1))) = Inr (r ! i)) \<and>
    hd r = hd pts \<and> last r = last pts \<and>
    step < polyline_length pts / real (length r - 1) \<and>
    polyline_length pts / real (length r - 1) \<le> 2 * step"
proof -
  define L where "L = polyline_length pts"
  define c where "c = \<lceil>L / step\<rceil>"
  define m where "m = nat c"
  define \<delta> where "\<delta> = L / real (m - 1)"
  define s where "s = PathSample_init tol pts"
  from step have Lpos: "0 < L" by (simp add: L_def)
  then have len: "2 \<le> length pts"
    unfolding L_def by (rule polyline_length_pos_length)
  then have ne: "pts \<noteq> []" by auto
  from step have "1 < L / step" by (simp add: L_def)
  then have c2: "2 \<le> c" unfolding c_def by linarith
  then have m2: "2 \<le> m" and cm: "c = int m" by (simp_all add: m_def)
  have up: "L / step \<le> real m"
    using cm c_def by (metis le_of_int_ceiling of_int_of_nat_eq)
  have lo: "real m - 1 < L / step"
    using cm c_def by (metis ceiling_correct of_int_of_nat_eq)
  from m2 have m1: "0 < real (m - 1)" "real (m - 1) = real m - 1" by simp_all
  from lo step(1) have "(real m - 1) * step < L"
    by (simp add: pos_less_divide_eq)
  then have "real (m - 1) * step < L"
    by (simp only: m1(2))
  then have gt: "step < \<delta>"
    using m1(1) by (simp add: \<delta>_def pos_less_divide_eq mult.commute)
  from up step(1) have "L \<le> real m * step"
    by (simp add: pos_divide_le_eq)
  also from m2 step(1) have "\<dots> \<le> (2 * step) * (real m - 1)"
    by (simp add: algebra_simps)
  also have "\<dots> = (2 * step) * real (m - 1)"
    by (simp only: m1(2))
  finally have le: "\<delta> \<le> 2 * step"
    using m1(1) by (simp add: \<delta>_def pos_divide_le_eq)
  define g where "g d =
      (let k = min (searchsorted (ps_cum_norm s) d) (length pts - 2)
       in pts ! k + (d - (0 # ps_cum_norm s) ! k) *\<^sub>R ps_unit_vec s ! k)" for d
  have g: "sample1 s d = Inr (g d)" for d
    unfolding g_def s_def Let_def
    using sample1_init [OF len, of tol d] by (simp only: Let_def)
  define r where "r = map (\<lambda>i. g (real i * \<delta>)) [0..<m]"
  have lin: "np_linspace 0 L c = Inr (map (\<lambda>i. real i * \<delta>) [0..<m])"
    using c2 by (simp add: np_linspace_def \<delta>_def m_def)
  have smp: "sample s (map (\<lambda>i. real i * \<delta>) [0..<m]) = Inr r"
    unfolding sample_def r_def
    by (subst emap_Inr [where g = g]) (simp_all add: g comp_def)
  from m2 have rne: "r \<noteq> []" and lr: "length r = m"
    by (auto simp: r_def)
  from m2 have "hd r = g 0"
    by (simp add: r_def hd_map upt_conv_Cons)
  moreover have "g 0 = hd pts"
    using g [of 0] sample1_start [OF len, of tol] by (simp add: s_def)
  ultimately have hd_r: "hd r = hd pts" by simp
  from m2 have "last r = g (real (m - 1) * \<delta>)"
    by (simp add: r_def last_map last_conv_nth)
  also have "real (m - 1) * \<delta> = L"
    using m1(1) by (simp add: \<delta>_def)
  also have "g L = last pts"
    using g [of L] sample1_end [OF len seg] by (simp add: s_def L_def)
  finally have last_r: "last r = last pts" .
  have pl: "ps_length s = L"
    by (simp add: s_def L_def)
  have tail: "resample_tail zero_step_error tol pts s (Some c) (Some step) = Inr r"
    using merge ne rne
    by (simp add: resample_tail_def resample_samples_def pl lin smp first_last_def hd_r last_r)
  have res: "resample_path zero_step_error tol pts None (Some step) True = Inr r"
    using step tail pl
    by (simp add: resample_path_def s_def [symmetric] L_def [symmetric] c_def Let_def)
  have nth: "sample1 s (real i * \<delta>) = Inr (r ! i)" if "i < m" for i
    using that by (simp add: g r_def)
  show ?thesis
    using res lr m2 nth hd_r last_r gt le
    unfolding L_def [symmetric] s_def [symmetric]
    by (intro exI [of _ r]) (simp add: m_def c_def \<delta>_def)
qed

theorem resample_path_step_round_witness:
  "\<exists>r. resample_path OverflowError \<lparr>tol_zero = 1 / 10 ^ 12, tol_merge = 1 / 10 ^ 5\<rparr>
       [point2 0 0, point2 10 0] None (Some 3) True = Inr r \<and>
     length r = 4 \<and> last r = point2 10 0 \<and> hd r = point2 0 0 \<and>
     (3 :: real) < 10 / 3 \<and> (10 / 3 :: real) \<le> 6"
proof -
  have c: "\<lceil>10 / 3 :: real\<rceil> = 4"
    by (intro ceiling_unique) simp_all
  show ?thesis
    using resample_path_step_round [where zero_step_error = OverflowError
        and tol = "\<lparr>tol_zero = 1 / 10 ^ 12, tol_merge = 1 / 10 ^ 5\<rparr>"
        and pts = "[point2 0 0, point2 10 0]" and step = 3]
    by (auto simp: polyline_length_def c)
qed

text \<open>
  C1, as the spec states it, fails: on the segment from \<open>(0, 0)\<close> to \<open>(10, 0)\<close> with
  \<open>step = 3\<close> the result has four points \<open>10 / 3\<close> apart, which is more than 3.
\<close>

theorem resample_path_step_round_spacing_exceeds_step:
  "resample_path OverflowError \<lparr>tol_zero = 1 / 10 ^ 12, tol_merge = 1 / 10 ^ 5\<rparr>
     [point2 0 0, point2 10 0] None (Some 3) True
     = Inr [point2 0 0, point2 (10 / 3) 0, point2 (20 / 3) 0, point2 10 0] \<and>
   \<not> norm (point2 (10 / 3) 0 - point2 0 0) \<le> 3"
proof -
  have c: "\<lceil>10 / 3 :: real\<rceil> = 4"
    by (intro ceiling_unique) simp_all
  show ?thesis
    by (simp add: resample_path_def polyline_length_def c resample_tail_def resample_samples_def
        np_linspace_def upt_4 sample_def sample1_def searchsorted_def np_cumsum_def np_clip_def
        py_index_def first_last_def)
qed

section \<open>discretize_path: the result\<close>

lemma Re_point2 [simp]: "Re (point2 x y) = x" and Im_point2 [simp]: "Im (point2 x y) = y"
  by (simp_all add: point2_def)

lemma map_enumerate_last:
  "xs \<noteq> [] \<Longrightarrow>
     map (\<lambda>(i, a). if i \<ge> k + length xs - 1 then c a else b a) (enumerate k xs)
       = map b (butlast xs) @ [c (last xs)]"
proof (induction xs arbitrary: k)
  case Nil
  then show ?case by simp
next
  case (Cons x xs)
  show ?case
  proof (cases xs)
    case Nil
    then show ?thesis by simp
  next
    case (Cons y ys)
    with Cons.IH [of "Suc k"] show ?thesis by simp
  qed
qed

text \<open>
  C8, as the code has it. An empty path raises \<open>ValueError\<close>. For a path of one entity
  the result is that entity's discretized points; for a path of two or more entities it
  is the concatenation, in path order, of the discretized points of every entity but the
  last without their final point, followed by all the points of the last entity. In both
  cases the sequence then goes through the last step of the function, which reverses it
  as a whole when the vertices are two-dimensional and the sequence is not
  counter-clockwise. The entity indices of the path are taken in range.
\<close>

theorem discretize_path_result:
  assumes "\<forall>a\<in>set path. a < length entities"
  shows
    "(path = [] \<longrightarrow>
        discretize_path is_ccw discrete dimension entities vertices path scale
          = Inl (ValueError ''Cannot discretize empty path!'')) \<and>
     (\<forall>a. path = [a] \<longrightarrow>
        discretize_path is_ccw discrete dimension entities vertices path scale
          = Inr (make_ccw is_ccw dimension (discrete (entities ! a) vertices scale))) \<and>
     (2 \<le> length path \<longrightarrow>
        discretize_path is_ccw discrete dimension entities vertices path scale
          = Inr (make_ccw is_ccw dimension
               (concat (map (\<lambda>a. butlast (discrete (entities ! a) vertices scale)) (butlast path))
                  @ discrete (entities ! last path) vertices scale)))"
proof (intro conjI impI allI)
  assume "path = []"
  then show "discretize_path is_ccw discrete dimension entities vertices path scale
      = Inl (ValueError ''Cannot discretize empty path!'')"
    by (simp add: discretize_path_def)
next
  fix a
  assume "path = [a]"
  with assms show "discretize_path is_ccw discrete dimension entities vertices path scale
      = Inr (make_ccw is_ccw dimension (discrete (entities ! a) vertices scale))"
    by (simp add: discretize_path_def py_index_def make_ccw_def)
next
  assume len: "2 \<le> length path"
  then have ne: "path \<noteq> []" by auto
  define cur where "cur a = discrete (entities ! a) vertices scale" for a
  define f where "f = (\<lambda>(i, entity_id).
      ebind (py_index entities (int entity_id)) (\<lambda>e.
        if i \<ge> length path - 1 then Inr (discrete e vertices scale)
        else Inr (butlast (discrete e vertices scale))))"
  define g where "g = (\<lambda>(i, a). if i \<ge> 0 + length path - 1 then cur a else butlast (cur a))"
  have "f x = Inr (g x)" if "x \<in> set (enumerate 0 path)" for x
  proof -
    obtain i a where x: "x = (i, a)" by (cases x)
    with that have "a \<in> set path"
      by (auto simp: enumerate_eq_zip dest: set_zip_rightD)
    with assms have "a < length entities" by simp
    then show ?thesis
      by (simp add: x f_def g_def cur_def py_index_def)
  qed
  then have "emap f (enumerate 0 path) = Inr (map g (enumerate 0 path))"
    by (rule emap_Inr)
  also have "map g (enumerate 0 path) = map (\<lambda>a. butlast (cur a)) (butlast path) @ [cur (last path)]"
    unfolding g_def using ne by (rule map_enumerate_last)
  finally have curves: "emap f (enumerate 0 path)
      = Inr (map (\<lambda>a. butlast (cur a)) (butlast path) @ [cur (last path)])" .
  have "discretize_path is_ccw discrete dimension entities vertices path scale
      = (if length path = 0 then Inl (ValueError ''Cannot discretize empty path!'')
         else ebind
           (if length path = 1 then
              ebind (py_index entities (int (path ! 0))) (\<lambda>e. Inr (discrete e vertices scale))
            else ebind (emap f (enumerate 0 path)) (\<lambda>curves. Inr (concat curves)))
           (\<lambda>discrete_points.
              if dimension = 2 \<and> \<not> is_ccw discrete_points then Inr (rev discrete_points)
              else Inr discrete_points))"
    by (simp only: discretize_path_def Let_def f_def)
  with len ne curves show "discretize_path is_ccw discrete dimension entities vertices path scale
      = Inr (make_ccw is_ccw dimension
           (concat (map (\<lambda>a. butlast (discrete (entities ! a) vertices scale)) (butlast path))
              @ discrete (entities ! last path) vertices scale))"
    by (simp add: make_ccw_def cur_def)
qed

theorem discretize_path_result_witness:
  "discretize_path is_ccw_area (\<lambda>e v s. e) 2
     [[point2 2 0, point2 2 1], [point2 0 0, point2 1 0, point2 2 0], [point2 2 1, point2 0 0]]
     () [1, 0, 2] 1
     = Inr [point2 0 0, point2 1 0, point2 2 0, point2 2 1, point2 0 0] \<and>
   discretize_path is_ccw_area (\<lambda>e v s. e) 2
     [[point2 2 0, point2 2 1], [point2 0 0, point2 1 0, point2 2 0], [point2 2 1, point2 0 0]]
     () [] 1
     = Inl (ValueError ''Cannot discretize empty path!'')"
  using discretize_path_result [of "[1, 0, 2]"
      "[[point2 2 0, point2 2 1], [point2 0 0, point2 1 0, point2 2 0], [point2 2 1, point2 0 0]]"
      is_ccw_area "\<lambda>e v s. e" 2 "()" 1]
    discretize_path_result [of "[]"
      "[[point2 2 0, point2 2 1], [point2 0 0, point2 1 0, point2 2 0], [point2 2 1, point2 0 0]]"
      is_ccw_area "\<lambda>e v s. e" 2 "()" 1]
  by (simp add: make_ccw_def is_ccw_area_def ring_area_def)

text \<open>
  C8, as the spec states it, fails: a path of one entity whose points run clockwise in
  the plane does not come back as that entity's discretized points, but reversed.
\<close>

theorem discretize_path_reverses_clockwise:
  "discretize_path is_ccw_area (\<lambda>e v s. e) 2
     [[point2 0 0, point2 0 1, point2 1 0, point2 0 0]] () [0] 1
     = Inr [point2 0 0, point2 1 0, point2 0 1, point2 0 0] \<and>
   [point2 0 0, point2 1 0, point2 0 1, point2 0 0]
     \<noteq> [point2 0 0, point2 0 1, point2 1 0, point2 0 0]"
  by (simp add: discretize_path_def py_index_def is_ccw_area_def ring_area_def)

section \<open>vertex_to_entity_path: the alignment loop\<close>

lemma slice_step_cases: "slice_step xs d = xs \<or> slice_step xs d = rev xs"
  by (simp add: slice_step_def)

lemma slice_step_simps [simp]: "slice_step xs 1 = xs" "slice_step xs (- 1) = rev xs"
  by (simp_all add: slice_step_def)

lemma points_reverse_points [simp]: "points (reverse_points e d) = slice_step (points e) d"
  by (simp add: reverse_points_def)

lemma reverse_points_1 [simp]: "reverse_points e 1 = e"
  by (simp add: reverse_points_def)

lemma ends_of_rev: "{hd (rev xs), last (rev xs)} = {hd xs, last xs}"
  by (cases "xs = []") (auto simp: hd_rev last_rev)

lemma ends_of_reverse_points [simp]: "ends_of (reverse_points e d) = ends_of e"
  using slice_step_cases [of "points e" d]
  by (elim disjE) (simp_all add: ends_of_def ends_of_rev)

lemma slice_step_eq_Nil [simp]: "slice_step xs d = [] \<longleftrightarrow> xs = []"
  by (simp add: slice_step_def)

lemma end_points_Inr: "points e \<noteq> [] \<Longrightarrow> end_points e = Inr (hd (points e), last (points e))"
  by (simp add: end_points_def first_last_def)

lemma edge_direction_Inl_iff:
  "edge_direction (x, y) (u, v) = Inl e \<longleftrightarrow>
     e = ValueError ''edges aren't connected!'' \<and> {x, y} \<inter> {u, v} = {}"
  by (auto simp: edge_direction_def)

lemma edge_direction_Inr_iff:
  "(\<exists>d. edge_direction (x, y) (u, v) = Inr d) \<longleftrightarrow> {x, y} \<inter> {u, v} \<noteq> {}"
  by (auto simp: edge_direction_def)

lemma align_pair_readable:
  assumes "a < length es" "b < length es" "points (es ! a) \<noteq> []" "points (es ! b) \<noteq> []"
  shows "align_pair (a, b) es =
    ebind (edge_direction (hd (points (es ! a)), last (points (es ! a)))
             (hd (points (es ! b)), last (points (es ! b))))
      (\<lambda>(da, db). Inr ((es[a := reverse_points (es ! a) da])
          [b := reverse_points (es[a := reverse_points (es ! a) da] ! b) db]))"
  using assms by (simp add: align_pair_def py_index_def end_points_Inr Let_def)

text \<open>What one turn of the loop leaves unchanged.\<close>

lemma update_keeps:
  assumes "c < length es"
  shows "ends_of (es[a := reverse_points (es ! a) d] ! c) = ends_of (es ! c)"
    and "points (es[a := reverse_points (es ! a) d] ! c) = [] \<longleftrightarrow> points (es ! c) = []"
proof -
  have "es[a := reverse_points (es ! a) d] ! c = (if c = a then reverse_points (es ! a) d else es ! c)"
    using assms by (simp add: nth_list_update)
  then show "ends_of (es[a := reverse_points (es ! a) d] ! c) = ends_of (es ! c)"
    and "points (es[a := reverse_points (es ! a) d] ! c) = [] \<longleftrightarrow> points (es ! c) = []"
    by simp_all
qed

lemma align_pair_keeps:
  assumes "align_pair ab es = Inr es'"
  shows "length es' = length es"
    and "c < length es \<Longrightarrow> ends_of (es' ! c) = ends_of (es ! c)"
    and "c < length es \<Longrightarrow> points (es' ! c) = [] \<longleftrightarrow> points (es ! c) = []"
proof -
  from assms obtain da db where es': "es' = (es[fst ab := reverse_points (es ! fst ab) da])
      [snd ab := reverse_points (es[fst ab := reverse_points (es ! fst ab) da] ! snd ab) db]"
    by (auto simp: align_pair_def ebind_eq_Inr Let_def split: prod.splits)
  define es1 where "es1 = es[fst ab := reverse_points (es ! fst ab) da]"
  have es1: "es' = es1[snd ab := reverse_points (es1 ! snd ab) db]" "length es1 = length es"
    by (simp_all add: es' es1_def)
  show "length es' = length es"
    by (simp add: es')
  show "ends_of (es' ! c) = ends_of (es ! c)" if "c < length es"
    using that update_keeps(1) [of c es1 "snd ab" db] update_keeps(1) [of c es "fst ab" da]
    by (simp add: es1 es1_def [symmetric])
  show "points (es' ! c) = [] \<longleftrightarrow> points (es ! c) = []" if "c < length es"
    using that update_keeps(2) [of c es1 "snd ab" db] update_keeps(2) [of c es "fst ab" da]
    by (simp add: es1 es1_def [symmetric])
qed

lemma readable_keeps:
  assumes "length es' = length es"
    and "\<And>c. c < length es \<Longrightarrow> points (es' ! c) = [] \<longleftrightarrow> points (es ! c) = []"
  shows "readable es' ps \<longleftrightarrow> readable es ps"
  using assms unfolding readable_def by (intro ball_cong refl) auto

lemma align_pair_result:
  assumes "readable es [ab]"
  shows "(align_pair ab es = Inl (ValueError ''edges aren't connected!'')
            \<longleftrightarrow> ends_of (es ! fst ab) \<inter> ends_of (es ! snd ab) = {}) \<and>
         (ends_of (es ! fst ab) \<inter> ends_of (es ! snd ab) \<noteq> {}
            \<longrightarrow> (\<exists>es'. align_pair ab es = Inr es'))"
proof -
  obtain a b where ab: "ab = (a, b)" by (cases ab)
  from assms have r: "a < length es" "b < length es" "points (es ! a) \<noteq> []" "points (es ! b) \<noteq> []"
    by (simp_all add: readable_def ab)
  show ?thesis
    unfolding ab align_pair_readable [OF r] fst_conv snd_conv ends_of_def
    using edge_direction_Inl_iff [of "hd (points (es ! a))" "last (points (es ! a))"
        "hd (points (es ! b))" "last (points (es ! b))"]
      edge_direction_Inr_iff [of "hd (points (es ! a))" "last (points (es ! a))"
        "hd (points (es ! b))" "last (points (es ! b))"]
    by (auto simp: ebind_eq_Inl ebind_eq_Inr split: prod.splits)
qed

lemma align_entities_result:
  assumes "readable es ps"
  shows "(align_entities ps es = Inl (ValueError ''edges aren't connected!'')
            \<longleftrightarrow> (\<exists>ab\<in>set ps. ends_of (es ! fst ab) \<inter> ends_of (es ! snd ab) = {})) \<and>
         ((\<forall>ab\<in>set ps. ends_of (es ! fst ab) \<inter> ends_of (es ! snd ab) \<noteq> {})
            \<longrightarrow> (\<exists>es'. align_entities ps es = Inr es'))"
  using assms
proof (induction ps arbitrary: es)
  case Nil
  then show ?case by simp
next
  case (Cons ab ps)
  define E where "E es cd = (ends_of (es ! fst cd) \<inter> ends_of (es ! snd cd) = {})"
    for es :: "entity list" and cd :: "nat \<times> nat"
  define V where "V = ValueError ''edges aren't connected!''"
  from Cons.prems have r1: "readable es [ab]" and r2: "readable es ps"
    by (simp_all add: readable_def)
  have first: "(align_pair ab es = Inl V \<longleftrightarrow> E es ab) \<and> (\<not> E es ab \<longrightarrow> (\<exists>es'. align_pair ab es = Inr es'))"
    unfolding E_def V_def by (rule align_pair_result [OF r1])
  have goal: "(align_entities (ab # ps) es = Inl V \<longleftrightarrow> (\<exists>cd\<in>set (ab # ps). E es cd)) \<and>
      ((\<forall>cd\<in>set (ab # ps). \<not> E es cd) \<longrightarrow> (\<exists>es'. align_entities (ab # ps) es = Inr es'))"
  proof (cases "E es ab")
    case True
    with first have "align_entities (ab # ps) es = Inl V" by simp
    with True show ?thesis by simp
  next
    case False
    with first obtain es1 where es1: "align_pair ab es = Inr es1" by blast
    note keep = align_pair_keeps [OF es1]
    have "readable es1 ps"
      using r2 readable_keeps [OF keep(1) keep(3)] by simp
    from Cons.IH [OF this] have
      rest: "(align_entities ps es1 = Inl V \<longleftrightarrow> (\<exists>cd\<in>set ps. E es1 cd)) \<and>
         ((\<forall>cd\<in>set ps. \<not> E es1 cd) \<longrightarrow> (\<exists>es'. align_entities ps es1 = Inr es'))"
      unfolding E_def V_def .
    have same: "E es1 cd \<longleftrightarrow> E es cd" if "cd \<in> set ps" for cd
      using that r2 keep(2) by (simp add: readable_def E_def)
    have step: "align_entities (ab # ps) es = align_entities ps es1"
      by (simp add: es1)
    from rest same False show ?thesis
      unfolding step by auto
  qed
  then show ?case
    unfolding E_def V_def .
qed


text \<open>
  C6. Let the entity path of a vertex cycle be computed, and let every entity on it exist
  and have points. Then the resolution fails with the error \<open>edges aren't connected!\<close>
  exactly when some cyclically adjacent pair of the path has no end point in common, and
  when every adjacent pair has an end point in common it returns the path.
\<close>

theorem edges_not_connected:
  assumes "entity_path_of is_ccw vertex_path g vertices = Inr path"
    and "readable es (round_trip path)"
  shows
    "(vertex_to_entity_path is_ccw vertex_path g es vertices
        = Inl (ValueError ''edges aren't connected!'')
      \<longleftrightarrow> (\<exists>ab\<in>set (round_trip path). ends_of (es ! fst ab) \<inter> ends_of (es ! snd ab) = {})) \<and>
     ((\<forall>ab\<in>set (round_trip path). ends_of (es ! fst ab) \<inter> ends_of (es ! snd ab) \<noteq> {})
      \<longrightarrow> (\<exists>es'. vertex_to_entity_path is_ccw vertex_path g es vertices = Inr (path, es')))"
proof -
  have "vertex_to_entity_path is_ccw vertex_path g es vertices
      = ebind (align_entities (round_trip path) es) (\<lambda>es'. Inr (path, es'))"
    by (simp add: vertex_to_entity_path_def assms(1))
  then have "vertex_to_entity_path is_ccw vertex_path g es vertices = Inl e
      \<longleftrightarrow> align_entities (round_trip path) es = Inl e"
    and "(\<exists>es'. vertex_to_entity_path is_ccw vertex_path g es vertices = Inr (path, es'))
      \<longleftrightarrow> (\<exists>es'. align_entities (round_trip path) es = Inr es')" for e
    by (simp_all add: ebind_eq_Inl ebind_eq_Inr)
  then show ?thesis
    using align_entities_result [OF assms(2)] by simp
qed

lemma upt_5: "[0..<5] = [0, 1, 2, 3, 4]"
  by (simp add: upt_rec [of 0] upt_rec [of 1] upt_rec [of 2] upt_rec [of 3] upt_rec [of 4]
      eval_nat_numeral)

theorem edges_not_connected_witness:
  "(\<exists>es'. vertex_to_entity_path is_ccw_area [0, 1, 2] (fst (vertex_graph triangle)) triangle None
      = Inr ([0, 1, 2], es')) \<and>
   vertex_to_entity_path is_ccw_area [0, 1, 2, 3] (fst (vertex_graph detour)) detour None
      = Inl (ValueError ''edges aren't connected!'')"
proof -
  have p1: "entity_path_of is_ccw_area [0, 1, 2] (fst (vertex_graph triangle)) None = Inr [0, 1, 2]"
    by (simp add: triangle_def open_line_def entity_path_of_def ccw_direction_def
        edge_entities_def vertex_graph_def add_edge_def upt_4 unique_ordered_def)
  have r1: "readable triangle (round_trip [0, 1, 2])"
    by (simp add: readable_def round_trip_def triangle_def open_line_def)
  have p2: "entity_path_of is_ccw_area [0, 1, 2, 3] (fst (vertex_graph detour)) None = Inr [0, 1, 2]"
    by (simp add: detour_def open_line_def entity_path_of_def ccw_direction_def
        edge_entities_def vertex_graph_def add_edge_def upt_5 unique_ordered_def)
  have r2: "readable detour (round_trip [0, 1, 2])"
    by (simp add: readable_def round_trip_def detour_def open_line_def)
  show ?thesis
    using edges_not_connected [OF p1 r1] edges_not_connected [OF p2 r2]
    by (simp add: round_trip_def triangle_def detour_def open_line_def ends_of_def)
qed

section \<open>vertex_to_entity_path: adjacency along the path\<close>

text \<open>The four rows of the rule table of \<open>edge_direction\<close>, as they are reached.\<close>

lemma edge_direction_keep_keep: "u \<noteq> v \<Longrightarrow> u \<noteq> w \<Longrightarrow> edge_direction (u, v) (v, w) = Inr (1, 1)"
  and edge_direction_keep_flip:
    "u \<noteq> v \<Longrightarrow> u \<noteq> w \<Longrightarrow> v \<noteq> w \<Longrightarrow> edge_direction (u, v) (w, v) = Inr (1, - 1)"
  and edge_direction_flip_keep: "edge_direction (v, u) (v, w) = Inr (- 1, 1)"
  and edge_direction_flip_flip: "v \<noteq> w \<Longrightarrow> edge_direction (v, u) (w, v) = Inr (- 1, - 1)"
  by (simp_all add: edge_direction_def)

lemma list_update_same_other [simp]: "a \<noteq> b \<Longrightarrow> (es[a := x])[b := es ! b] = es[a := x]"
  by (metis list_update_id nth_list_update_neq)

lemma oriented_reversed:
  assumes "oriented es a u v"
  shows "oriented (es[a := reverse_points (es ! a) (- 1)]) a v u"
  using assms by (simp add: oriented_def hd_rev last_rev)

lemma oriented_other:
  assumes "oriented es a u v" and "a \<noteq> b"
  shows "oriented (es[b := e]) a u v"
  using assms by (simp add: oriented_def)

lemma align_pair_oriented:
  assumes "oriented es a x y" and "oriented es b p q"
  shows "align_pair (a, b) es =
    ebind (edge_direction (x, y) (p, q))
      (\<lambda>(da, db). Inr ((es[a := reverse_points (es ! a) da])
          [b := reverse_points (es[a := reverse_points (es ! a) da] ! b) db]))"
  using assms align_pair_readable [of a es b] by (simp add: oriented_def)

text \<open>The first pair of the round trip: both entities may be turned.\<close>

lemma align_pair_first:
  assumes a: "joins es a u v" and b: "joins es b v w" and ne: "u \<noteq> v" "u \<noteq> w" "a \<noteq> b"
  shows "\<exists>es'. align_pair (a, b) es = Inr es' \<and> oriented es' a u v \<and> oriented es' b v w \<and>
    length es' = length es \<and> (\<forall>c. c \<noteq> a \<and> c \<noteq> b \<longrightarrow> es' ! c = es ! c)"
proof -
  consider (kk) "oriented es a u v" "oriented es b v w"
    | (kf) "oriented es a u v" "oriented es b w v" "v \<noteq> w"
    | (fk) "oriented es a v u" "oriented es b v w"
    | (ff) "oriented es a v u" "oriented es b w v" "v \<noteq> w"
    using a b unfolding joins_def by (cases "v = w") auto
  then show ?thesis
  proof cases
    case kk
    then have "align_pair (a, b) es = Inr es"
      using ne by (simp add: align_pair_oriented [OF kk] edge_direction_keep_keep)
    with kk show ?thesis by simp
  next
    case kf
    let ?es = "es[b := reverse_points (es ! b) (- 1)]"
    have "align_pair (a, b) es = Inr ?es"
      using ne kf(3) by (simp add: align_pair_oriented [OF kf(1,2)] edge_direction_keep_flip)
    moreover have "oriented ?es b v w"
      using kf(2) by (rule oriented_reversed)
    moreover have "oriented ?es a u v"
      using kf(1) ne(3) by (rule oriented_other)
    ultimately show ?thesis by simp
  next
    case fk
    let ?es = "es[a := reverse_points (es ! a) (- 1)]"
    have "align_pair (a, b) es = Inr ?es"
      using ne by (simp add: align_pair_oriented [OF fk] edge_direction_flip_keep)
    moreover have "oriented ?es a u v"
      using fk(1) by (rule oriented_reversed)
    moreover have "oriented ?es b v w"
      using fk(2) ne(3) [symmetric] by (rule oriented_other)
    ultimately show ?thesis by simp
  next
    case ff
    let ?es1 = "es[a := reverse_points (es ! a) (- 1)]"
    let ?es = "?es1[b := reverse_points (es ! b) (- 1)]"
    have "align_pair (a, b) es = Inr ?es"
      using ne ff(3) by (simp add: align_pair_oriented [OF ff(1,2)] edge_direction_flip_flip)
    moreover have "oriented ?es1 a u v"
      using ff(1) by (rule oriented_reversed)
    then have "oriented ?es a u v"
      using ne(3) by (rule oriented_other)
    moreover have "oriented ?es1 b w v"
      using ff(2) ne(3) [symmetric] by (rule oriented_other)
    then have "oriented (?es1[b := reverse_points (?es1 ! b) (- 1)]) b v w"
      by (rule oriented_reversed)
    then have "oriented ?es b v w"
      using ne(3) by simp
    ultimately show ?thesis by simp
  qed
qed

text \<open>A later pair: the first entity is already in place and stays.\<close>

lemma align_pair_next:
  assumes a: "oriented es a u v" and b: "joins es b v w" and ne: "u \<noteq> v" "u \<noteq> w" "a \<noteq> b"
  shows "\<exists>es'. align_pair (a, b) es = Inr es' \<and> oriented es' b v w \<and>
    length es' = length es \<and> (\<forall>c. c \<noteq> b \<longrightarrow> es' ! c = es ! c)"
proof -
  consider (kk) "oriented es b v w" | (kf) "oriented es b w v" "v \<noteq> w"
    using b unfolding joins_def by (cases "v = w") auto
  then show ?thesis
  proof cases
    case kk
    then have "align_pair (a, b) es = Inr es"
      using ne by (simp add: align_pair_oriented [OF a kk] edge_direction_keep_keep)
    with kk show ?thesis by simp
  next
    case kf
    let ?es = "es[b := reverse_points (es ! b) (- 1)]"
    have "align_pair (a, b) es = Inr ?es"
      using ne kf(2) by (simp add: align_pair_oriented [OF a kf(1)] edge_direction_keep_flip)
    moreover have "oriented ?es b v w"
      using kf(1) by (rule oriented_reversed)
    ultimately show ?thesis by simp
  qed
qed

text \<open>The pair that closes the round trip: nothing is turned.\<close>

lemma align_pair_close:
  assumes "oriented es a u v" and "oriented es b v w" and "u \<noteq> v" and "u \<noteq> w"
  shows "align_pair (a, b) es = Inr es"
  using assms(3,4) by (simp add: align_pair_oriented [OF assms(1,2)] edge_direction_keep_keep)

lemma joined_Nil [simp]: "joined es [] ring \<longleftrightarrow> length ring = 1"
  and aligned_Nil [simp]: "aligned es [] ring \<longleftrightarrow> length ring = 1"
  by (simp_all add: joined_def aligned_def)

lemma joined_Cons [simp]:
  "joined es (a # path) (u # v # ring) \<longleftrightarrow> joins es a u v \<and> joined es path (v # ring)"
  by (auto simp: joined_def less_Suc_eq_0_disj)

lemma aligned_Cons [simp]:
  "aligned es (a # path) (u # v # ring) \<longleftrightarrow> oriented es a u v \<and> aligned es path (v # ring)"
  by (auto simp: aligned_def less_Suc_eq_0_disj)

lemma joined_Cons_ring:
  assumes "joined es (a # path) (v # ws)"
  obtains w ws' where "ws = w # ws'" "joins es a v w" "joined es path (w # ws')"
proof -
  from assms have "length ws = Suc (length path)" by (simp add: joined_def)
  then obtain w ws' where ws: "ws = w # ws'" by (cases ws) auto
  with assms that show ?thesis by simp
qed

lemma oriented_same:
  assumes "oriented es a u v" and "length es' = length es" and "es' ! a = es ! a"
  shows "oriented es' a u v"
  using assms by (simp add: oriented_def)

lemma joined_same:
  assumes "joined es path ring" and "length es' = length es"
    and "\<And>c. c \<in> set path \<Longrightarrow> es' ! c = es ! c"
  shows "joined es' path ring"
  using assms by (simp add: joined_def joins_def oriented_def)

lemma align_entities_append:
  "align_entities (ps @ qs) es = ebind (align_entities ps es) (align_entities qs)"
  by (induction ps arbitrary: es) (simp_all add: ebind_def split: sum.splits)

text \<open>
  The pairs after the first one, up to the last entity: every entity met is put in place,
  and those already in place are not touched again.
\<close>

lemma align_chain:
  assumes "distinct (a # rest)" and "oriented es a u v" and "joined es rest (v # ws)"
    and "distinct (u # v # ws)"
  shows "\<exists>es'. align_entities (zip (a # rest) rest) es = Inr es' \<and>
    aligned es' (a # rest) (u # v # ws) \<and> length es' = length es \<and>
    (\<forall>c. c \<notin> set rest \<longrightarrow> es' ! c = es ! c)"
  using assms
proof (induction rest arbitrary: a u v ws es)
  case Nil
  then show ?case by simp
next
  case (Cons b rest)
  from Cons.prems(3) obtain w ws' where ws: "ws = w # ws'"
    and b: "joins es b v w" and rest: "joined es rest (w # ws')"
    by (rule joined_Cons_ring)
  from Cons.prems(1,4) have ne: "u \<noteq> v" "u \<noteq> w" "a \<noteq> b"
    by (auto simp: ws)
  from align_pair_next [OF Cons.prems(2) b ne]
  obtain es1 where es1: "align_pair (a, b) es = Inr es1" "oriented es1 b v w"
    "length es1 = length es" "\<And>c. c \<noteq> b \<Longrightarrow> es1 ! c = es ! c"
    by blast
  have rest1: "joined es1 rest (w # ws')"
  proof (rule joined_same [OF rest es1(3)])
    fix c
    assume "c \<in> set rest"
    with Cons.prems(1) have "c \<noteq> b" by auto
    then show "es1 ! c = es ! c" by (rule es1(4))
  qed
  from Cons.prems(1,4) have d: "distinct (b # rest)" "distinct (v # w # ws')"
    by (simp_all add: ws)
  from Cons.IH [OF d(1) es1(2) rest1 d(2)]
  obtain es' where es': "align_entities (zip (b # rest) rest) es1 = Inr es'"
    "aligned es' (b # rest) (v # w # ws')" "length es' = length es1"
    "\<And>c. c \<notin> set rest \<Longrightarrow> es' ! c = es1 ! c"
    by blast
  from Cons.prems(1) have "a \<notin> set rest" "a \<noteq> b" by auto
  then have "es' ! a = es ! a"
    by (simp only: es'(4) es1(4) not_False_eq_True)
  with Cons.prems(2) es'(3) es1(3) have a: "oriented es' a u v"
    by (intro oriented_same [of es a u v es']) simp_all
  have other: "es' ! c = es ! c" if "c \<notin> set (b # rest)" for c
  proof -
    from that have "c \<notin> set rest" "c \<noteq> b" by auto
    then show ?thesis
      by (simp only: es'(4) es1(4) not_False_eq_True)
  qed
  have 1: "align_entities (zip (a # b # rest) (b # rest)) es = Inr es'"
    using es1(1) es'(1) by simp
  have 2: "aligned es' (a # b # rest) (u # v # w # ws')"
    using a es'(2) by (simp only: aligned_Cons)
  have 3: "length es' = length es"
    using es'(3) es1(3) by simp
  show ?case
    unfolding ws using 1 2 3 other by blast
qed

lemma zip_shifted: "zip (x # xs) (xs @ [y]) = zip (x # xs) xs @ [(last (x # xs), y)]"
  by (induction xs arbitrary: x) simp_all

lemma round_trip_Cons2:
  "round_trip (a # b # rest) = (a, b) # zip (b # rest) rest @ [(last (b # rest), a)]"
  by (simp add: round_trip_def zip_shifted del: last.simps)

lemma aligned_last:
  assumes "aligned es path ring" and "path \<noteq> []"
  shows "oriented es (last path) (ring ! (length path - 1)) (last ring)"
proof -
  from assms(2) obtain n where n: "length path = Suc n"
    by (cases path) auto
  from assms(1) have lr: "length ring = Suc (Suc n)"
    and o: "oriented es (path ! n) (ring ! n) (ring ! Suc n)"
    by (simp_all add: aligned_def n)
  from lr have "ring \<noteq> []" by auto
  then have "last ring = ring ! Suc n"
    by (simp add: last_conv_nth lr)
  moreover from assms(2) have "last path = path ! n"
    by (simp add: last_conv_nth n)
  ultimately show ?thesis
    using o by (simp add: n)
qed

text \<open>A cycle of three or more entities.\<close>

lemma align_cycle3:
  assumes dp: "distinct (a # b # rest)" and ne: "rest \<noteq> []"
    and dv: "distinct (v0 # v1 # vrest)"
    and j: "joined es (a # b # rest) (v0 # v1 # vrest @ [v0])"
  shows "\<exists>es'. align_entities (round_trip (a # b # rest)) es = Inr es' \<and>
    aligned es' (a # b # rest) (v0 # v1 # vrest @ [v0])"
proof -
  from j have len: "length vrest = length rest"
    by (simp add: joined_def)
  with ne obtain v2 vr where vrest: "vrest = v2 # vr"
    by (cases vrest) auto
  from j have ja: "joins es a v0 v1" and jb: "joins es b v1 v2"
    and jr: "joined es rest (v2 # vr @ [v0])"
    by (simp_all add: vrest)
  from dp dv have n1: "v0 \<noteq> v1" "v0 \<noteq> v2" "a \<noteq> b"
    by (auto simp: vrest)
  from align_pair_first [OF ja jb n1]
  obtain es1 where es1: "align_pair (a, b) es = Inr es1" "oriented es1 a v0 v1"
    "oriented es1 b v1 v2" "length es1 = length es"
    "\<And>c. c \<noteq> a \<Longrightarrow> c \<noteq> b \<Longrightarrow> es1 ! c = es ! c"
    by blast
  have jr1: "joined es1 rest (v2 # vr @ [v0])"
  proof (rule joined_same [OF jr es1(4)])
    fix c
    assume "c \<in> set rest"
    with dp have "c \<noteq> a" "c \<noteq> b" by auto
    then show "es1 ! c = es ! c" by (rule es1(5))
  qed
  from dp dv have d2: "distinct (b # rest)" "distinct (v1 # v2 # vr @ [v0])"
    by (auto simp: vrest)
  from align_chain [OF d2(1) es1(3) jr1 d2(2)]
  obtain es2 where es2: "align_entities (zip (b # rest) rest) es1 = Inr es2"
    "aligned es2 (b # rest) (v1 # v2 # vr @ [v0])" "length es2 = length es1"
    "\<And>c. c \<notin> set rest \<Longrightarrow> es2 ! c = es1 ! c"
    by blast
  from dp have "a \<notin> set rest" by simp
  then have "es2 ! a = es1 ! a" by (rule es2(4))
  with es1(2) es2(3) have a2: "oriented es2 a v0 v1"
    by (intro oriented_same [of es1 a v0 v1 es2]) simp_all
  define x where "x = (v1 # v2 # vr @ [v0]) ! (length (b # rest) - 1)"
  from aligned_last [OF es2(2)] have l2: "oriented es2 (last (b # rest)) x v0"
    by (simp add: x_def)
  from len have lr: "length rest = Suc (length vr)"
    by (simp add: vrest)
  have "(v1 # (v2 # vr) @ [v0]) ! Suc (length vr) = (v2 # vr) ! length vr"
    by (simp only: nth_Cons_Suc nth_append length_Cons lessI if_True)
  then have "x = (v2 # vr) ! length vr"
    by (simp add: x_def lr)
  moreover have "(v2 # vr) ! length vr \<in> set (v2 # vr)"
    by (rule nth_mem) simp
  ultimately have "x \<in> set (v2 # vr)"
    by simp
  with dv have n2: "x \<noteq> v0" "x \<noteq> v1"
    by (auto simp: vrest)
  from align_pair_close [OF l2 a2 n2] have close: "align_pair (last (b # rest), a) es2 = Inr es2" .
  have "align_entities (round_trip (a # b # rest)) es = Inr es2"
    unfolding round_trip_Cons2
    by (simp add: es1(1) align_entities_append es2(1) close del: last.simps)
  moreover have "aligned es2 (a # b # rest) (v0 # v1 # vrest @ [v0])"
    using a2 es2(2) by (simp add: vrest)
  ultimately show ?thesis by blast
qed

text \<open>A cycle of one entity, and of two.\<close>

lemma align_cycle1:
  assumes "joins es a v v"
  shows "\<exists>es'. align_entities (round_trip [a]) es = Inr es' \<and>
    last (points (es' ! a)) = hd (points (es' ! a))"
proof -
  from assms have o: "oriented es a v v"
    by (simp add: joins_def)
  let ?es = "es[a := reverse_points (es ! a) (- 1)]"
  from o have "a < length es"
    by (simp add: oriented_def)
  then have "align_pair (a, a) es = Inr ?es"
    by (simp add: align_pair_oriented [OF o o] edge_direction_flip_keep)
  moreover from o have "oriented ?es a v v"
    by (rule oriented_reversed)
  ultimately show ?thesis
    by (auto simp: round_trip_def oriented_def)
qed

lemma align_pair_opposite:
  assumes a: "oriented es a p q" and b: "joins es b p q" and ne: "a \<noteq> b" "p \<noteq> q"
  shows "\<exists>es'. align_pair (a, b) es = Inr es' \<and> oriented es' a q p \<and> oriented es' b p q"
proof -
  let ?es1 = "es[a := reverse_points (es ! a) (- 1)]"
  from b consider (same) "oriented es b p q" | (opposite) "oriented es b q p"
    unfolding joins_def by blast
  then show ?thesis
  proof cases
    case same
    have "align_pair (a, b) es = Inr ?es1"
      using ne by (simp add: align_pair_oriented [OF a same] edge_direction_flip_keep)
    moreover have "oriented ?es1 a q p"
      using a by (rule oriented_reversed)
    moreover have "oriented ?es1 b p q"
      using same ne(1) [symmetric] by (rule oriented_other)
    ultimately show ?thesis by blast
  next
    case opposite
    let ?es = "?es1[b := reverse_points (es ! b) (- 1)]"
    have "align_pair (a, b) es = Inr ?es"
      using ne by (simp add: align_pair_oriented [OF a opposite] edge_direction_flip_flip)
    moreover have "oriented ?es1 a q p"
      using a by (rule oriented_reversed)
    then have "oriented ?es a q p"
      using ne(1) by (rule oriented_other)
    moreover have "oriented ?es1 b q p"
      using opposite ne(1) [symmetric] by (rule oriented_other)
    then have "oriented (?es1[b := reverse_points (?es1 ! b) (- 1)]) b p q"
      by (rule oriented_reversed)
    then have "oriented ?es b p q"
      using ne(1) by simp
    ultimately show ?thesis by blast
  qed
qed

lemma align_cycle2:
  assumes a: "joins es a v0 v1" and b: "joins es b v1 v0" and ne: "a \<noteq> b" "v0 \<noteq> v1"
  shows "\<exists>es'. align_entities (round_trip [a, b]) es = Inr es' \<and>
    last (points (es' ! a)) = hd (points (es' ! b)) \<and>
    last (points (es' ! b)) = hd (points (es' ! a))"
proof -
  from a obtain p q where pq: "oriented es a p q" "joins es b p q" "p \<noteq> q"
    using b ne(2) unfolding joins_def by metis
  from align_pair_opposite [OF pq(1,2) ne(1) pq(3)]
  obtain es1 where es1: "align_pair (a, b) es = Inr es1" "oriented es1 a q p" "oriented es1 b p q"
    by blast
  from es1(2) have "joins es1 a p q"
    by (simp add: joins_def)
  from align_pair_opposite [OF es1(3) this ne(1) [symmetric] pq(3)]
  obtain es2 where es2: "align_pair (b, a) es1 = Inr es2" "oriented es2 b q p" "oriented es2 a p q"
    by blast
  have "align_entities (round_trip [a, b]) es = Inr es2"
    by (simp add: round_trip_def es1(1) es2(1))
  with es2(2,3) show ?thesis
    by (auto simp: oriented_def)
qed

text \<open>From the cyclic reading of a simple cycle to the walk that closes on its first vertex.\<close>

lemma closed_walk_nth:
  assumes "i < length vs"
  shows "(vs @ [hd vs]) ! i = vs ! i" and "(vs @ [hd vs]) ! Suc i = vs ! (Suc i mod length vs)"
proof -
  from assms show "(vs @ [hd vs]) ! i = vs ! i"
    by (simp add: nth_append)
  show "(vs @ [hd vs]) ! Suc i = vs ! (Suc i mod length vs)"
  proof (cases "Suc i < length vs")
    case True
    then show ?thesis by (simp add: nth_append)
  next
    case False
    with assms have eq: "Suc i = length vs" by simp
    from assms have "vs \<noteq> []" by auto
    then have "hd vs = vs ! 0" by (simp add: hd_conv_nth)
    then show ?thesis
      unfolding eq by (simp add: nth_append)
  qed
qed

lemma simple_cycle_joined:
  assumes "simple_cycle es path vs"
  shows "joined es path (vs @ [hd vs])"
  using assms closed_walk_nth [of _ vs]
  by (simp add: simple_cycle_def joined_def)

lemma aligned_adjacent:
  assumes al: "aligned es path (vs @ [hd vs])" and len: "length vs = length path"
    and i: "i < length path"
  shows "last (points (es ! (path ! i))) = hd (points (es ! (path ! (Suc i mod length path))))"
proof -
  from i have "0 < length path"
    by (cases path) simp_all
  then have j: "Suc i mod length path < length path"
    by (rule mod_less_divisor)
  from al i have "oriented es (path ! i) ((vs @ [hd vs]) ! i) ((vs @ [hd vs]) ! Suc i)"
    unfolding aligned_def by blast
  then have "last (points (es ! (path ! i))) = vs ! (Suc i mod length path)"
    using closed_walk_nth(2) [of i vs] i len by (simp add: oriented_def)
  moreover from al j have "oriented es (path ! (Suc i mod length path))
      ((vs @ [hd vs]) ! (Suc i mod length path)) ((vs @ [hd vs]) ! Suc (Suc i mod length path))"
    unfolding aligned_def by blast
  then have "hd (points (es ! (path ! (Suc i mod length path)))) = vs ! (Suc i mod length path)"
    using closed_walk_nth(1) [of "Suc i mod length path" vs] j len by (simp add: oriented_def)
  ultimately show ?thesis by simp
qed

subsection \<open>The resolved path\<close>

lemma align_simple_cycle:
  assumes "simple_cycle es path vs"
  shows "\<exists>es'. align_entities (round_trip path) es = Inr es' \<and>
    (\<forall>i<length path. last (points (es' ! (path ! i)))
        = hd (points (es' ! (path ! (Suc i mod length path)))))"
proof -
  from assms have j: "joined es path (vs @ [hd vs])"
    by (rule simple_cycle_joined)
  from assms have c: "path \<noteq> []" "distinct path" "length vs = length path" "distinct vs"
    by (simp_all add: simple_cycle_def)
  consider (one) a where "path = [a]"
    | (two) a b where "path = [a, b]"
    | (more) a b rest where "path = a # b # rest" "rest \<noteq> []"
    using c(1) by (cases path; cases "tl path"; cases "tl (tl path)") auto
  then show ?thesis
  proof cases
    case one
    with c(3) obtain v where vs: "vs = [v]"
      by (cases vs) auto
    from j have "joins es a v v"
      by (simp add: one vs)
    from align_cycle1 [OF this] show ?thesis
      by (simp add: one)
  next
    case two
    with c(3) obtain v0 v1 where vs: "vs = [v0, v1]"
      by (cases vs; cases "tl vs") auto
    from j have "joins es a v0 v1" "joins es b v1 v0"
      by (simp_all add: two vs)
    moreover from c(2,4) have "a \<noteq> b" "v0 \<noteq> v1"
      by (simp_all add: two vs)
    ultimately obtain es' where es': "align_entities (round_trip [a, b]) es = Inr es'"
      "last (points (es' ! a)) = hd (points (es' ! b))"
      "last (points (es' ! b)) = hd (points (es' ! a))"
      using align_cycle2 by blast
    have "last (points (es' ! (path ! i))) = hd (points (es' ! (path ! (Suc i mod length path))))"
      if "i < length path" for i
    proof -
      from that consider "i = 0" | "i = 1" by (auto simp: two less_Suc_eq)
      then show ?thesis
        by cases (simp_all add: es'(2,3) two)
    qed
    moreover from es'(1) have "align_entities (round_trip path) es = Inr es'"
      by (simp add: two)
    ultimately show ?thesis
      by blast
  next
    case more
    with c(3) obtain v0 v1 vrest where vs: "vs = v0 # v1 # vrest"
      by (cases vs; cases "tl vs") auto
    from j have j': "joined es (a # b # rest) (v0 # v1 # vrest @ [v0])"
      by (simp add: more vs)
    from c(2,4) have d: "distinct (a # b # rest)" "distinct (v0 # v1 # vrest)"
      by (simp_all add: more vs)
    from align_cycle3 [OF d(1) more(2) d(2) j']
    obtain es' where es': "align_entities (round_trip path) es = Inr es'"
      "aligned es' path (vs @ [hd vs])"
      by (auto simp: more vs)
    from aligned_adjacent [OF es'(2) c(3)] es'(1) show ?thesis
      by blast
  qed
qed

text \<open>
  C3, on the inputs it holds for. Let the entity path of a vertex cycle be computed, and
  let its entities form a simple cycle: there are distinct vertices, one for each entity
  of the path, such that entity \<open>i\<close> joins vertex \<open>i\<close> and the cyclically next vertex, in
  either direction. Then the resolution returns the path, and afterwards the last point
  of every entity of the path is the first point of the cyclically next one.
\<close>

theorem resolved_path_shares_endpoints:
  assumes "entity_path_of is_ccw vertex_path g vertices = Inr path"
    and "simple_cycle es path vs"
  shows "\<exists>es'. vertex_to_entity_path is_ccw vertex_path g es vertices = Inr (path, es') \<and>
    (\<forall>i<length path. last (points (es' ! (path ! i)))
        = hd (points (es' ! (path ! (Suc i mod length path)))))"
proof -
  from align_simple_cycle [OF assms(2)]
  obtain es' where es': "align_entities (round_trip path) es = Inr es'"
    "\<forall>i<length path. last (points (es' ! (path ! i)))
        = hd (points (es' ! (path ! (Suc i mod length path))))"
    by blast
  from es'(1) have "vertex_to_entity_path is_ccw vertex_path g es vertices = Inr (path, es')"
    by (simp add: vertex_to_entity_path_def assms(1))
  with es'(2) show ?thesis by blast
qed

theorem resolved_path_shares_endpoints_witness:
  "\<exists>es'. vertex_to_entity_path is_ccw_area [0, 1, 2] (fst (vertex_graph triangle)) triangle None
       = Inr ([0, 1, 2], es') \<and>
     last (points (es' ! 0)) = hd (points (es' ! 1)) \<and>
     last (points (es' ! 1)) = hd (points (es' ! 2)) \<and>
     last (points (es' ! 2)) = hd (points (es' ! 0))"
proof -
  have p: "entity_path_of is_ccw_area [0, 1, 2] (fst (vertex_graph triangle)) None = Inr [0, 1, 2]"
    by (simp add: triangle_def open_line_def entity_path_of_def ccw_direction_def
        edge_entities_def vertex_graph_def add_edge_def upt_4 unique_ordered_def)
  have c: "simple_cycle triangle [0, 1, 2] [0, 1, 2]"
    by (simp add: simple_cycle_def All_less_Suc joins_def oriented_def triangle_def open_line_def)
  from resolved_path_shares_endpoints [OF p c] show ?thesis
    by (simp add: All_less_Suc) blast
qed

text \<open>
  C3, for every returned path, fails. The two polylines 0-3-4-1 and 1-3-2 give the vertex
  cycle 3, 4, 1; its entity path \<open>[0, 1]\<close> is returned without an error, with the first
  entity ending at vertex 0 and the second starting at vertex 2.
\<close>

theorem resolved_path_not_adjacent:
  "vertex_to_entity_path is_ccw_area [3, 4, 1] (fst (vertex_graph crossing)) crossing None
     = Inr ([0, 1], [(open_line [0, 3, 4, 1])\<lparr>points := [1, 4, 3, 0]\<rparr>,
                     (open_line [1, 3, 2])\<lparr>points := [2, 3, 1]\<rparr>]) \<and>
   last [1, 4, 3, 0 :: nat] \<noteq> hd [2, 3, 1]"
  by code_simp

section \<open>vertex_to_entity_path: the orientation of the path\<close>

lemma align_pair_Inr_readable:
  assumes "align_pair ab es = Inr es'"
  shows "readable es [ab]"
  using assms
  by (auto simp: align_pair_def ebind_eq_Inr py_index_def end_points_def first_last_def
      readable_def split: if_splits)

lemma align_entities_Inr_readable:
  assumes "align_entities ps es = Inr es'"
  shows "readable es ps"
  using assms
proof (induction ps arbitrary: es)
  case Nil
  then show ?case by (simp add: readable_def)
next
  case (Cons ab ps)
  from Cons.prems obtain es1 where es1: "align_pair ab es = Inr es1"
    and rest: "align_entities ps es1 = Inr es'"
    by (auto simp: ebind_eq_Inr)
  note keep = align_pair_keeps [OF es1]
  from Cons.IH [OF rest] have "readable es1 ps" .
  then have "readable es ps"
    using readable_keeps [OF keep(1) keep(3)] by simp
  moreover from es1 have "readable es [ab]"
    by (rule align_pair_Inr_readable)
  ultimately show ?case
    by (simp add: readable_def)
qed

text \<open>The adjacent pairs of a list, read backwards.\<close>

lemma set_adjacent_Cons:
  "set (zip (x # xs) (tl (x # xs))) = (if xs = [] then {} else {(x, hd xs)}) \<union> set (zip xs (tl xs))"
  by (cases xs) simp_all

lemma set_adjacent_snoc:
  "set (zip (xs @ [y]) (tl (xs @ [y]))) = set (zip xs (tl xs)) \<union> (if xs = [] then {} else {(last xs, y)})"
proof (induction xs)
  case Nil
  then show ?case by simp
next
  case (Cons x xs)
  then show ?case by (cases xs) auto
qed

lemma set_adjacent_rev:
  "set (zip (rev xs) (tl (rev xs))) = (\<lambda>(a, b). (b, a)) ` set (zip xs (tl xs))"
proof (induction xs)
  case Nil
  then show ?case by simp
next
  case (Cons x xs)
  have "set (zip (rev (x # xs)) (tl (rev (x # xs))))
      = set (zip (rev xs) (tl (rev xs))) \<union> (if xs = [] then {} else {(hd xs, x)})"
    using set_adjacent_snoc [of "rev xs" x] by (simp add: last_rev)
  also have "\<dots> = (\<lambda>(a, b). (b, a)) ` set (zip (x # xs) (tl (x # xs)))"
    unfolding Cons.IH set_adjacent_Cons by auto
  finally show ?case .
qed

lemma zip_append_short: "length ys \<le> length xs \<Longrightarrow> zip (xs @ zs) ys = zip xs ys"
proof (induction xs arbitrary: ys)
  case Nil
  then show ?case by simp
next
  case (Cons x xs)
  then show ?case by (cases ys) simp_all
qed

lemma round_trip_adjacent:
  "p \<noteq> [] \<Longrightarrow> round_trip p = zip (p @ [hd p]) (tl (p @ [hd p]))"
  using zip_append_short [of "tl p @ [hd p]" p "[hd p]"]
  by (cases p) (simp_all add: round_trip_def)

lemma set_round_trip_rev:
  "set (round_trip (rev p)) = (\<lambda>(a, b). (b, a)) ` set (round_trip p)"
proof (cases "p = []")
  case True
  then show ?thesis by (simp add: round_trip_def)
next
  case False
  then have "set (round_trip (rev p)) = set (zip (rev p) (tl (rev p))) \<union> {(hd p, last p)}"
    using set_adjacent_snoc [of "rev p" "last p"]
    by (simp add: round_trip_adjacent hd_rev last_rev)
  also have "\<dots> = (\<lambda>(a, b). (b, a)) ` (set (zip p (tl p)) \<union> {(last p, hd p)})"
    unfolding set_adjacent_rev by auto
  also have "set (zip p (tl p)) \<union> {(last p, hd p)} = set (round_trip p)"
    using False set_adjacent_snoc [of p "hd p"] by (simp add: round_trip_adjacent)
  finally show ?thesis .
qed

lemma align_entities_rev_returns:
  assumes "align_entities (round_trip p) es = Inr es'"
  shows "\<exists>es''. align_entities (round_trip (rev p)) es = Inr es''"
proof -
  from assms have r: "readable es (round_trip p)"
    by (rule align_entities_Inr_readable)
  from assms have "align_entities (round_trip p) es \<noteq> Inl (ValueError ''edges aren't connected!'')"
    by simp
  with align_entities_result [OF r]
  have share: "\<forall>ab\<in>set (round_trip p). ends_of (es ! fst ab) \<inter> ends_of (es ! snd ab) \<noteq> {}"
    by blast
  have r': "readable es (round_trip (rev p))"
    using r unfolding readable_def set_round_trip_rev by auto
  have "\<forall>ab\<in>set (round_trip (rev p)). ends_of (es ! fst ab) \<inter> ends_of (es ! snd ab) \<noteq> {}"
  proof
    fix ab
    assume "ab \<in> set (round_trip (rev p))"
    then obtain a b where ab: "ab = (b, a)" and "(a, b) \<in> set (round_trip p)"
      unfolding set_round_trip_rev by auto
    with share have "ends_of (es ! a) \<inter> ends_of (es ! b) \<noteq> {}"
      by fastforce
    then show "ends_of (es ! fst ab) \<inter> ends_of (es ! snd ab) \<noteq> {}"
      by (simp add: ab Int_commute)
  qed
  with align_entities_result [OF r'] show ?thesis
    by blast
qed

lemma entity_path_of_None:
  "entity_path_of is_ccw vp g None = ebind (edge_entities g vp) (\<lambda>raw. Inr (unique_ordered raw))"
  by (simp add: entity_path_of_def ccw_direction_def)

lemma entity_path_of_Some:
  assumes "closed_ring vs vp = Inr ring"
  shows "entity_path_of is_ccw vp g (Some vs) = ebind (edge_entities g vp)
    (\<lambda>raw. Inr (if is_ccw ring then unique_ordered raw else rev (unique_ordered raw)))"
  by (simp add: entity_path_of_def ccw_direction_def assms)

lemma vertex_to_entity_path_Inr:
  "vertex_to_entity_path is_ccw vp g es vertices = Inr (path, es') \<longleftrightarrow>
     entity_path_of is_ccw vp g vertices = Inr path \<and>
     align_entities (round_trip path) es = Inr es'"
  by (auto simp: vertex_to_entity_path_def ebind_eq_Inr)

text \<open>
  C4. Without coordinates the entity path is the deduplicated sequence of edge entities
  in traversal order. With coordinates it is that sequence when the closed ring of the
  vertex path is counter-clockwise and its reverse when the ring is clockwise. So when
  two coordinate arrays give the ring opposite windings and the resolution returns a path
  with the first, it returns the reverse of that path with the second.
\<close>

theorem entity_path_follows_winding:
  "(vertices = None \<longrightarrow>
      entity_path_of is_ccw vp g vertices
        = ebind (edge_entities g vp) (\<lambda>raw. Inr (unique_ordered raw))) \<and>
   (vertices = Some vs \<and> closed_ring vs vp = Inr ring \<longrightarrow>
      entity_path_of is_ccw vp g vertices
        = ebind (edge_entities g vp) (\<lambda>raw.
            Inr (if is_ccw ring then unique_ordered raw else rev (unique_ordered raw)))) \<and>
   (closed_ring vs vp = Inr ring \<and> closed_ring vs' vp = Inr ring' \<and>
    is_ccw ring \<noteq> is_ccw ring' \<and>
    vertex_to_entity_path is_ccw vp g es (Some vs) = Inr (path, es') \<longrightarrow>
      (\<exists>es''. vertex_to_entity_path is_ccw vp g es (Some vs') = Inr (rev path, es'')))"
proof (intro conjI impI)
  assume "vertices = None"
  then show "entity_path_of is_ccw vp g vertices
      = ebind (edge_entities g vp) (\<lambda>raw. Inr (unique_ordered raw))"
    by (simp add: entity_path_of_None)
next
  assume "vertices = Some vs \<and> closed_ring vs vp = Inr ring"
  then show "entity_path_of is_ccw vp g vertices = ebind (edge_entities g vp)
      (\<lambda>raw. Inr (if is_ccw ring then unique_ordered raw else rev (unique_ordered raw)))"
    by (simp add: entity_path_of_Some)
next
  assume a: "closed_ring vs vp = Inr ring \<and> closed_ring vs' vp = Inr ring' \<and>
    is_ccw ring \<noteq> is_ccw ring' \<and>
    vertex_to_entity_path is_ccw vp g es (Some vs) = Inr (path, es')"
  then have p: "entity_path_of is_ccw vp g (Some vs) = Inr path"
    and al: "align_entities (round_trip path) es = Inr es'"
    by (simp_all add: vertex_to_entity_path_Inr)
  from a p obtain raw where raw: "edge_entities g vp = Inr raw"
    and path: "path = (if is_ccw ring then unique_ordered raw else rev (unique_ordered raw))"
    by (auto simp: entity_path_of_Some ebind_eq_Inr)
  from a have "entity_path_of is_ccw vp g (Some vs')
      = Inr (if is_ccw ring' then unique_ordered raw else rev (unique_ordered raw))"
    by (simp add: entity_path_of_Some raw)
  also from a have "(if is_ccw ring' then unique_ordered raw else rev (unique_ordered raw)) = rev path"
    by (auto simp: path)
  finally have "entity_path_of is_ccw vp g (Some vs') = Inr (rev path)" .
  moreover from align_entities_rev_returns [OF al]
  obtain es'' where "align_entities (round_trip (rev path)) es = Inr es''" ..
  ultimately show "\<exists>es''. vertex_to_entity_path is_ccw vp g es (Some vs') = Inr (rev path, es'')"
    by (auto simp: vertex_to_entity_path_Inr)
qed

theorem entity_path_follows_winding_witness:
  "vertex_to_entity_path is_ccw_area [0, 1, 2] (fst (vertex_graph triangle)) triangle
      (Some [point2 0 0, point2 1 0, point2 0 1])
     = Inr ([0, 1, 2], [open_line [0, 1], (open_line [2, 1])\<lparr>points := [1, 2]\<rparr>,
                        (open_line [0, 2])\<lparr>points := [2, 0]\<rparr>]) \<and>
   (\<exists>es''. vertex_to_entity_path is_ccw_area [0, 1, 2] (fst (vertex_graph triangle)) triangle
      (Some [point2 0 0, point2 0 1, point2 1 0]) = Inr ([2, 1, 0], es'')) \<and>
   entity_path_of is_ccw_area [0, 1, 2] (fst (vertex_graph triangle)) None = Inr [0, 1, 2]"
proof -
  have r1: "closed_ring [point2 0 0, point2 1 0, point2 0 1] [0, 1, 2]
      = Inr [point2 0 0, point2 1 0, point2 0 1, point2 0 0]"
    and r2: "closed_ring [point2 0 0, point2 0 1, point2 1 0] [0, 1, 2]
      = Inr [point2 0 0, point2 0 1, point2 1 0, point2 0 0]"
    by (simp_all add: closed_ring_def py_index_def)
  have w: "is_ccw_area [point2 0 0, point2 1 0, point2 0 1, point2 0 0]
      \<noteq> is_ccw_area [point2 0 0, point2 0 1, point2 1 0, point2 0 0]"
    by (simp add: is_ccw_area_def ring_area_def)
  have raw: "edge_entities (fst (vertex_graph triangle)) [0, 1, 2] = Inr [0, 1, 2, 0]"
    by (simp add: triangle_def open_line_def edge_entities_def vertex_graph_def add_edge_def upt_4)
  have v: "vertex_to_entity_path is_ccw_area [0, 1, 2] (fst (vertex_graph triangle)) triangle
      (Some [point2 0 0, point2 1 0, point2 0 1])
     = Inr ([0, 1, 2], [open_line [0, 1], (open_line [2, 1])\<lparr>points := [1, 2]\<rparr>,
                        (open_line [0, 2])\<lparr>points := [2, 0]\<rparr>])"
  proof -
    have "entity_path_of is_ccw_area [0, 1, 2] (fst (vertex_graph triangle))
        (Some [point2 0 0, point2 1 0, point2 0 1]) = Inr [0, 1, 2]"
      unfolding entity_path_of_Some [OF r1] raw
      by (simp add: unique_ordered_def is_ccw_area_def ring_area_def)
    moreover have "align_entities (round_trip [0, 1, 2]) triangle
        = Inr [open_line [0, 1], (open_line [2, 1])\<lparr>points := [1, 2]\<rparr>,
               (open_line [0, 2])\<lparr>points := [2, 0]\<rparr>]"
      by code_simp
    ultimately show ?thesis
      by (simp only: vertex_to_entity_path_Inr simp_thms)
  qed
  from entity_path_follows_winding [of None is_ccw_area "[0, 1, 2]" "fst (vertex_graph triangle)"
      "[point2 0 0, point2 1 0, point2 0 1]" "[point2 0 0, point2 1 0, point2 0 1, point2 0 0]"
      "[point2 0 0, point2 0 1, point2 1 0]" "[point2 0 0, point2 0 1, point2 1 0, point2 0 0]"
      triangle "[0, 1, 2]"] r1 r2 w v raw
  show ?thesis
    by (simp add: unique_ordered_def)
qed

end
